theory Spec2Isabelle
  imports Complex_Main "HOL-Library.Multiset"
begin

section \<open>Keystroke dynamics: feature extraction, training and prediction\<close>

text \<open>
  A shallow embedding of \<^verbatim>\<open>keystyleid/features.py\<close>, \<^verbatim>\<open>train.py\<close>, \<^verbatim>\<open>predict.py\<close> and the
  two guarded actions of \<^verbatim>\<open>app.py\<close>.

  Conventions of the embedding:
  \<^item> a key event is the dictionary \<^verbatim>\<open>{'key': .., 'type': .., 't': ..}\<close>; its three entries are
    the fields of a record (prefixed \<open>ev_\<close>, since \<open>key\<close>, \<open>type\<close> and \<open>t\<close> are wanted as
    variable names);
  \<^item> timestamps and statistics are real numbers: the rounding of Python's floats is not
    modelled. The overflow of a float difference or sum to infinity is modelled in a second
    embedding of \<^verbatim>\<open>extract_features\<close> (the functions with the suffix \<open>_fl\<close>), which is
    proved to agree with the first when no timestamp exceeds \<open>2\<^sup>1\<^sup>0\<^sup>2\<^sup>1\<close> in magnitude;
  \<^item> every operation of Python that can raise (a dictionary lookup, \<^verbatim>\<open>list.pop(0)\<close>, the
    functions of the \<^verbatim>\<open>statistics\<close> module, \<^verbatim>\<open>max\<close>) returns a value of \<open>py_error + 'a\<close>,
    with \<open>Inl\<close> the exception.
\<close>

subsection \<open>Data\<close>

datatype py_error =
    KeyError | IndexError | StatisticsError | ValueError | AttributeError | DecodeError

record event =
  ev_key :: string
  ev_type :: string
  ev_t :: real

text \<open>The dictionary returned by \<^verbatim>\<open>extract_features\<close>: six entries, keyed by these names.\<close>

record features =
  dwell_mean :: real
  dwell_std :: real
  dwell_median :: real
  flight_mean :: real
  flight_std :: real
  flight_median :: real

definition zero_features :: features where
  "zero_features =
     \<lparr>dwell_mean = 0, dwell_std = 0, dwell_median = 0,
      flight_mean = 0, flight_std = 0, flight_median = 0\<rparr>"

subsection \<open>Python primitives that can raise\<close>

text \<open>\<^verbatim>\<open>d[k]\<close> on a dictionary: KeyError when the key is absent.\<close>

definition dict_get :: "('k \<rightharpoonup> 'v) \<Rightarrow> 'k \<Rightarrow> py_error + 'v" where
  "dict_get d k = (case d k of None \<Rightarrow> Inl KeyError | Some v \<Rightarrow> Inr v)"

text \<open>\<^verbatim>\<open>xs.pop(0)\<close>: the first element and the rest, IndexError on the empty list.\<close>

definition pop0 :: "'a list \<Rightarrow> py_error + ('a \<times> 'a list)" where
  "pop0 xs = (case xs of [] \<Rightarrow> Inl IndexError | x # rest \<Rightarrow> Inr (x, rest))"

text \<open>
  The three functions of Python's \<^verbatim>\<open>statistics\<close> module that \<^verbatim>\<open>calc_stats\<close> calls, after
  the module's documentation: \<^verbatim>\<open>mean\<close> and \<^verbatim>\<open>median\<close> raise StatisticsError on empty data,
  \<^verbatim>\<open>stdev\<close> (the square root of the sample variance) on fewer than two values.
\<close>

definition statistics_mean :: "real list \<Rightarrow> py_error + real" where
  "statistics_mean xs =
     (if xs = [] then Inl StatisticsError else Inr (sum_list xs / real (length xs)))"

definition statistics_stdev :: "real list \<Rightarrow> py_error + real" where
  "statistics_stdev xs =
     (if length xs < 2 then Inl StatisticsError
      else let m = sum_list xs / real (length xs)
           in Inr (sqrt (sum_list (map (\<lambda>x. (x - m)\<^sup>2) xs) / real (length xs - 1))))"

definition statistics_median :: "real list \<Rightarrow> py_error + real" where
  "statistics_median xs =
     (let data = sort xs; n = length data
      in if n = 0 then Inl StatisticsError
         else if n mod 2 = 1 then Inr (data ! (n div 2))
         else Inr ((data ! (n div 2 - 1) + data ! (n div 2)) / 2))"

subsection \<open>features.py: extract\_features\<close>

text \<open>
  The first loop files every timestamp under its key, in \<^verbatim>\<open>keydowns\<close> or \<^verbatim>\<open>keyups\<close>. A Python
  dictionary is iterated in insertion order and \<^verbatim>\<open>keydowns\<close> is iterated later, so both are
  association lists in insertion order. \<open>dict_append d k v\<close> is
  \<^verbatim>\<open>if k not in d: d[k] = []\<close> followed by \<^verbatim>\<open>d[k].append(v)\<close>.
\<close>

fun dict_append :: "('k \<times> 'v list) list \<Rightarrow> 'k \<Rightarrow> 'v \<Rightarrow> ('k \<times> 'v list) list" where
  "dict_append [] k v = [(k, [v])]"
| "dict_append ((k', vs) # d) k v =
     (if k' = k then (k', vs @ [v]) # d else (k', vs) # dict_append d k v)"

type_synonym key_times = "(string \<times> real list) list"

definition separate_step :: "event \<Rightarrow> key_times \<times> key_times \<Rightarrow> key_times \<times> key_times" where
  "separate_step e s =
     (case s of (keydowns, keyups) \<Rightarrow>
        if ev_type e = ''down'' then (dict_append keydowns (ev_key e) (ev_t e), keyups)
        else if ev_type e = ''up'' then (keydowns, dict_append keyups (ev_key e) (ev_t e))
        else (keydowns, keyups))"

definition separate :: "event list \<Rightarrow> key_times \<times> key_times" where
  "separate events = fold separate_step events ([], [])"

text \<open>\<^verbatim>\<open>all_events\<close>: the triples (timestamp, type, key), sorted by timestamp. Python's sort
  is stable, as \<open>sort_key\<close> is.\<close>

definition all_events :: "event list \<Rightarrow> (real \<times> string \<times> string) list" where
  "all_events events = sort_key fst (map (\<lambda>e. (ev_t e, ev_type e, ev_key e)) events)"

text \<open>
  The matching loop. Its state is \<^verbatim>\<open>pending_downs\<close> (only looked up, so a map) and
  \<^verbatim>\<open>dwell_times\<close>. The lookups \<^verbatim>\<open>pending_downs[key]\<close> and the \<^verbatim>\<open>pop(0)\<close> are the raising
  primitives above; the guards of the source are what keeps them from raising.
\<close>

type_synonym pending = "string \<rightharpoonup> real list"

definition match_step ::
  "real \<times> string \<times> string \<Rightarrow> pending \<times> real list \<Rightarrow> py_error + (pending \<times> real list)" where
  "match_step ev s =
     (case ev of (timestamp, event_type, key) \<Rightarrow>
      case s of (pending_downs, dwell_times) \<Rightarrow>
        if event_type = ''down'' then
          (let pd = (if key \<notin> dom pending_downs then pending_downs(key \<mapsto> [])
                     else pending_downs)
           in case dict_get pd key of
                Inl err \<Rightarrow> Inl err
              | Inr q \<Rightarrow> Inr (pd(key \<mapsto> q @ [timestamp]), dwell_times))
        else if event_type = ''up'' then
          (if key \<in> dom pending_downs
              \<and> (case dict_get pending_downs key of Inl _ \<Rightarrow> False | Inr q \<Rightarrow> length q > 0)
           then
             (case dict_get pending_downs key of
                Inl err \<Rightarrow> Inl err
              | Inr q \<Rightarrow>
                 (case pop0 q of
                    Inl err \<Rightarrow> Inl err
                  | Inr (down_time, rest) \<Rightarrow>
                     (let dwell_time = timestamp - down_time
                      in if dwell_time > 0
                         then Inr (pending_downs(key \<mapsto> rest), dwell_times @ [dwell_time])
                         else Inr (pending_downs(key \<mapsto> rest), dwell_times))))
           else Inr (pending_downs, dwell_times))
        else Inr (pending_downs, dwell_times))"

fun match_loop ::
  "(real \<times> string \<times> string) list \<Rightarrow> pending \<times> real list \<Rightarrow> py_error + (pending \<times> real list)" where
  "match_loop [] s = Inr s"
| "match_loop (ev # evs) s =
     (case match_step ev s of Inl err \<Rightarrow> Inl err | Inr s' \<Rightarrow> match_loop evs s')"

definition dwell_times_of :: "event list \<Rightarrow> py_error + real list" where
  "dwell_times_of events =
     (case match_loop (all_events events) (Map.empty, []) of
        Inl err \<Rightarrow> Inl err
      | Inr (pending_downs, dwell_times) \<Rightarrow> Inr dwell_times)"

text \<open>\<^verbatim>\<open>all_downs\<close>: the pairs (timestamp, key) read off \<^verbatim>\<open>keydowns\<close> key by key, then sorted
  by timestamp.\<close>

definition all_downs :: "event list \<Rightarrow> (real \<times> string) list" where
  "all_downs events =
     sort_key fst
       (concat (map (\<lambda>(key, ts). map (\<lambda>timestamp. (timestamp, key)) ts)
                    (fst (separate events))))"

text \<open>The flight loop, \<^verbatim>\<open>for i in range(len(all_downs) - 1)\<close>; for an empty list the range
  is empty, as \<open>[0..<0 - 1]\<close> is.\<close>

definition flight_loop :: "(real \<times> string) list \<Rightarrow> real list" where
  "flight_loop ads =
     concat (map (\<lambda>i. let flight_time = fst (ads ! (i + 1)) - fst (ads ! i)
                       in if flight_time > 0 then [flight_time] else [])
                 [0..<length ads - 1])"

definition flight_times_of :: "event list \<Rightarrow> real list" where
  "flight_times_of events = flight_loop (all_downs events)"

definition calc_stats :: "real list \<Rightarrow> py_error + (real \<times> real \<times> real)" where
  "calc_stats vals =
     (if vals = [] then Inr (0, 0, 0)
      else case statistics_mean vals of
             Inl err \<Rightarrow> Inl err
           | Inr mean \<Rightarrow>
              (case (if length vals > 1 then statistics_stdev vals else Inr 0) of
                 Inl err \<Rightarrow> Inl err
               | Inr std \<Rightarrow>
                  (case statistics_median vals of
                     Inl err \<Rightarrow> Inl err
                   | Inr median \<Rightarrow> Inr (mean, std, median))))"

text \<open>\<^verbatim>\<open>extract_features\<close> over the real numbers. It stands for the source on every event list
  on which no float difference or sum overflows; \<open>extract_features_fl\<close> further down is the
  same function with the overflow written out.\<close>

definition extract_features :: "event list \<Rightarrow> py_error + features" where
  "extract_features events =
     (if length events < 2 then Inr zero_features
      else case dwell_times_of events of
             Inl err \<Rightarrow> Inl err
           | Inr dwell_times \<Rightarrow>
              (case calc_stats dwell_times of
                 Inl err \<Rightarrow> Inl err
               | Inr (dm, ds, dmed) \<Rightarrow>
                  (case calc_stats (flight_times_of events) of
                     Inl err \<Rightarrow> Inl err
                   | Inr (fm, fs, fmed) \<Rightarrow>
                      Inr \<lparr>dwell_mean = dm, dwell_std = ds, dwell_median = dmed,
                           flight_mean = fm, flight_std = fs, flight_median = fmed\<rparr>)))"

text \<open>The list built from the dictionary in \<^verbatim>\<open>prepare_features\<close> (train.py) and again in
  \<^verbatim>\<open>predict_user\<close> (predict.py): the six entries in one fixed order.\<close>

definition feature_vector :: "features \<Rightarrow> real list" where
  "feature_vector f =
     [dwell_mean f, dwell_std f, dwell_median f, flight_mean f, flight_std f, flight_median f]"

subsection \<open>The feature extractor as the specification words it\<close>

text \<open>
  Dwell samples, after the specification: every key has a first-in first-out queue of pending
  press timestamps, empty at the start. Over the events sorted by timestamp, a press
  (\<^verbatim>\<open>'down'\<close>) enqueues its timestamp on the queue of its key; a release (\<^verbatim>\<open>'up'\<close>) takes the
  oldest pending press of its key off the queue, if there is one, and records the difference
  when it is positive; a release whose queue is empty records nothing.
\<close>

type_synonym queues = "string \<Rightarrow> real list"

fun spec_dwell :: "event list \<Rightarrow> queues \<Rightarrow> real list" where
  "spec_dwell [] q = []"
| "spec_dwell (e # es) q =
     (if ev_type e = ''down'' then spec_dwell es (q(ev_key e := q (ev_key e) @ [ev_t e]))
      else if ev_type e = ''up'' then
        (case q (ev_key e) of
           [] \<Rightarrow> spec_dwell es q
         | press_t # rest \<Rightarrow>
             (if ev_t e - press_t > 0 then [ev_t e - press_t] else [])
               @ spec_dwell es (q(ev_key e := rest)))
      else spec_dwell es q)"

definition spec_dwell_samples :: "event list \<Rightarrow> real list" where
  "spec_dwell_samples events = spec_dwell (sort_key ev_t events) (\<lambda>k. [])"

text \<open>
  Flight samples, after the specification: the timestamps of all presses, whatever their
  key, sorted ascending; the differences of neighbours; of these, the positive ones.
\<close>

fun consecutive_diffs :: "real list \<Rightarrow> real list" where
  "consecutive_diffs (a # b # rest) = (b - a) # consecutive_diffs (b # rest)"
| "consecutive_diffs _ = []"

definition spec_flight_samples :: "event list \<Rightarrow> real list" where
  "spec_flight_samples events =
     filter (\<lambda>d. d > 0)
       (consecutive_diffs (sort (map ev_t (filter (\<lambda>e. ev_type e = ''down'') events))))"

text \<open>The queues that a \<^verbatim>\<open>pending_downs\<close> dictionary stands for: an absent key has the
  empty queue.\<close>

definition queues_of :: "pending \<Rightarrow> queues" where
  "queues_of pd k = (case pd k of None \<Rightarrow> [] | Some q \<Rightarrow> q)"

definition triple :: "event \<Rightarrow> real \<times> string \<times> string" where
  "triple e = (ev_t e, ev_type e, ev_key e)"

text \<open>The list that the two nested loops over \<^verbatim>\<open>keydowns\<close> build before it is sorted.\<close>

definition flat :: "key_times \<Rightarrow> (real \<times> string) list" where
  "flat d = concat (map (\<lambda>(key, ts). map (\<lambda>timestamp. (timestamp, key)) ts) d)"

text \<open>The dwell samples of \<open>spec_dwell\<close>, each with the key it belongs to.\<close>

fun keyed_dwell :: "event list \<Rightarrow> queues \<Rightarrow> (string \<times> real) list" where
  "keyed_dwell [] q = []"
| "keyed_dwell (e # es) q =
     (if ev_type e = ''down'' then keyed_dwell es (q(ev_key e := q (ev_key e) @ [ev_t e]))
      else if ev_type e = ''up'' then
        (case q (ev_key e) of
           [] \<Rightarrow> keyed_dwell es q
         | press_t # rest \<Rightarrow>
             (if ev_t e - press_t > 0 then [(ev_key e, ev_t e - press_t)] else [])
               @ keyed_dwell es (q(ev_key e := rest)))
      else keyed_dwell es q)"

subsection \<open>features.py: validate\_typed\_text\<close>

text \<open>
  Strings are lists of 8-bit characters, read as ASCII text (the prompt of the application is
  ASCII). \<^verbatim>\<open>str.strip()\<close> removes leading and trailing whitespace; the ASCII characters that
  Python counts as whitespace are the codes 9 to 13, 28 to 31 and the blank. \<^verbatim>\<open>str.lower()\<close>
  maps the letters A to Z to a to z and leaves every other ASCII character alone.
\<close>

definition py_isspace :: "char \<Rightarrow> bool" where
  "py_isspace c =
     (c \<in> set [CHR 0x09, CHR 0x0A, CHR 0x0B, CHR 0x0C, CHR 0x0D,
                CHR 0x1C, CHR 0x1D, CHR 0x1E, CHR 0x1F, CHR '' ''])"

definition py_strip :: "string \<Rightarrow> string" where
  "py_strip s = rev (dropWhile py_isspace (rev (dropWhile py_isspace s)))"

definition py_lower_char :: "char \<Rightarrow> char" where
  "py_lower_char c =
     (case map_of (zip ''ABCDEFGHIJKLMNOPQRSTUVWXYZ'' ''abcdefghijklmnopqrstuvwxyz'') c of
        None \<Rightarrow> c
      | Some l \<Rightarrow> l)"

definition py_lower :: "string \<Rightarrow> string" where
  "py_lower s = map py_lower_char s"

text \<open>The loop \<^verbatim>\<open>for char in typed_clean\<close>, with its two counters as arguments.\<close>

fun count_matches :: "string \<Rightarrow> string \<Rightarrow> nat \<Rightarrow> nat \<Rightarrow> nat" where
  "count_matches [] prompt_clean matches prompt_idx = matches"
| "count_matches (char # rest) prompt_clean matches prompt_idx =
     (if prompt_idx < length prompt_clean \<and> char = prompt_clean ! prompt_idx
      then count_matches rest prompt_clean (matches + 1) (prompt_idx + 1)
      else count_matches rest prompt_clean matches prompt_idx)"

text \<open>
  \<^verbatim>\<open>matches / len(prompt_clean) >= min_similarity\<close> is a comparison of floats in the source
  and of reals here; with the default 0.8 the two agree for every prompt of fewer than
  \<open>10\<^sup>1\<^sup>5\<close> characters, a quotient of integers below 4/5 staying below the float 0.8 then.
\<close>

definition validate_typed_text :: "string \<Rightarrow> string \<Rightarrow> real \<Rightarrow> bool" where
  "validate_typed_text typed_text prompt min_similarity =
     (let typed_clean = py_lower (py_strip typed_text);
          prompt_clean = py_lower (py_strip prompt)
      in if typed_clean = prompt_clean then True
         else if length prompt_clean = 0 then False
         else (let matches = count_matches typed_clean prompt_clean 0 0;
                   similarity = real matches / real (length prompt_clean)
               in similarity \<ge> min_similarity))"

text \<open>The default of the third parameter, \<^verbatim>\<open>min_similarity: float = 0.8\<close>.\<close>

definition default_min_similarity :: real where
  "default_min_similarity = 8 / 10"

text \<open>
  The matched count as the specification words it: one scan of the typed text from left to
  right against the part of the prompt not matched yet; a typed character equal to the next
  prompt character counts and moves on in the prompt.
\<close>

fun spec_matched :: "string \<Rightarrow> string \<Rightarrow> nat" where
  "spec_matched [] remaining = 0"
| "spec_matched (c # cs) [] = 0"
| "spec_matched (c # cs) (p # ps) =
     (if c = p then 1 + spec_matched cs ps else spec_matched cs (p # ps))"

subsection \<open>Dictionaries kept in insertion order\<close>

text \<open>
  \<^verbatim>\<open>d[k] = v\<close> on a dictionary whose order of keys matters: an existing key keeps its place,
  a new key goes to the end. \<open>dict_get_default\<close> is \<^verbatim>\<open>d.get(k, v0)\<close>.
\<close>

fun dict_set :: "('k \<times> 'v) list \<Rightarrow> 'k \<Rightarrow> 'v \<Rightarrow> ('k \<times> 'v) list" where
  "dict_set [] k v = [(k, v)]"
| "dict_set ((k', v') # d) k v =
     (if k' = k then (k', v) # d else (k', v') # dict_set d k v)"


subsection \<open>Sessions, classifiers and the files of the application\<close>

text \<open>
  A stored session is a JSON object. \<^verbatim>\<open>train.py\<close> reads its \<^verbatim>\<open>'user'\<close> and \<^verbatim>\<open>'events'\<close>
  entries with \<^verbatim>\<open>session.get\<close> and a default, so these two may be absent.
\<close>

record session =
  s_user :: "string option"
  s_events :: "event list option"
  s_typed_text :: string
  s_created_at :: string

definition get_user :: "session \<Rightarrow> string" where
  "get_user s = (case s_user s of None \<Rightarrow> '''' | Some u \<Rightarrow> u)"

definition get_events :: "session \<Rightarrow> event list" where
  "get_events s = (case s_events s of None \<Rightarrow> [] | Some es \<Rightarrow> es)"

text \<open>
  A fitted scikit-learn classifier, as far as the code uses it: its \<^verbatim>\<open>classes_\<close>, and what
  \<^verbatim>\<open>predict\<close> and \<^verbatim>\<open>predict_proba\<close> return for one row (both work row by row).
\<close>

record classifier =
  clf_classes :: "string list"
  clf_predict :: "real list \<Rightarrow> string"
  clf_predict_proba :: "real list \<Rightarrow> real list"

text \<open>
  The files the code reads and writes: the JSON list of sessions, the pickled classifier and
  the pickled list of feature names. The file system is a map from paths to contents;
  directories are not modelled.
\<close>

datatype stored_file =
    SessionsJson "session list"
  | ModelJoblib classifier
  | FeatureOrderJoblib "string list"

type_synonym filesystem = "string \<rightharpoonup> stored_file"

definition feature_order_path :: string where
  "feature_order_path = ''artifacts/feature_order.joblib''"

definition default_data_path :: string where
  "default_data_path = ''data/sessions.json''"

definition default_model_path :: string where
  "default_model_path = ''artifacts/model.joblib''"

definition feature_order :: "string list" where
  "feature_order =
     [''dwell_mean'', ''dwell_std'', ''dwell_median'',
      ''flight_mean'', ''flight_std'', ''flight_median'']"



subsection \<open>train.py\<close>




fun prepare_features :: "session list \<Rightarrow> py_error + (real list list \<times> string list)" where
  "prepare_features [] = Inr ([], [])"
| "prepare_features (session # sessions) =
     (case extract_features (get_events session) of
        Inl err \<Rightarrow> Inl err
      | Inr features \<Rightarrow>
         (case prepare_features sessions of
            Inl err \<Rightarrow> Inl err
          | Inr (features_list, labels_list) \<Rightarrow>
              Inr (feature_vector features # features_list,
                   get_user session # labels_list)))"







subsection \<open>predict.py\<close>

text \<open>\<^verbatim>\<open>max(xs)\<close>: ValueError on an empty sequence.\<close>

definition py_max :: "real list \<Rightarrow> py_error + real" where
  "py_max xs = (case xs of [] \<Rightarrow> Inl ValueError | x # rest \<Rightarrow> Inr (fold max rest x))"

text \<open>The dictionary comprehension over \<^verbatim>\<open>enumerate(probabilities)\<close>; \<^verbatim>\<open>class_names[i]\<close> raises
  IndexError when there are more probabilities than class names.\<close>

fun prob_dict_loop ::
  "string list \<Rightarrow> (nat \<times> real) list \<Rightarrow> (string \<times> real) list
     \<Rightarrow> py_error + (string \<times> real) list" where
  "prob_dict_loop class_names [] d = Inr d"
| "prob_dict_loop class_names ((i, prob) # rest) d =
     (if i < length class_names
      then prob_dict_loop class_names rest (dict_set d (class_names ! i) prob)
      else Inl IndexError)"

definition prob_dict :: "string list \<Rightarrow> real list \<Rightarrow> py_error + (string \<times> real) list" where
  "prob_dict class_names probabilities =
     prob_dict_loop class_names (enumerate 0 probabilities) []"

record prediction =
  predicted_user :: string
  confidence :: real
  probabilities :: "(string \<times> real) list"

text \<open>The result dictionary of \<^verbatim>\<open>predict_user\<close>; \<open>ModelNotFound\<close> is the failure with the text
  \<^verbatim>\<open>Model not found. Please train the model first.\<close>\<close>

datatype predict_result = ModelNotFound | Predicted prediction

text \<open>
  \<^verbatim>\<open>joblib.load(model_path)\<close> followed by the first use of the loaded object as a classifier:
  a pickled list has no \<^verbatim>\<open>predict\<close> (AttributeError), a JSON file is no pickle.
\<close>

definition load_model :: "stored_file \<Rightarrow> py_error + classifier" where
  "load_model f =
     (case f of
        ModelJoblib model \<Rightarrow> Inr model
      | FeatureOrderJoblib names \<Rightarrow> Inl AttributeError
      | SessionsJson sessions \<Rightarrow> Inl DecodeError)"

definition predict_user :: "filesystem \<Rightarrow> event list \<Rightarrow> string \<Rightarrow> py_error + predict_result" where
  "predict_user fs events model_path =
     (case fs model_path of
        None \<Rightarrow> Inr ModelNotFound
      | Some f \<Rightarrow>
         (case load_model f of
            Inl err \<Rightarrow> Inl err
          | Inr model \<Rightarrow>
             (case extract_features events of
                Inl err \<Rightarrow> Inl err
              | Inr features \<Rightarrow>
                 (let fv = feature_vector features;
                      predicted = clf_predict model fv;
                      probs = clf_predict_proba model fv
                  in case py_max probs of
                       Inl err \<Rightarrow> Inl err
                     | Inr conf \<Rightarrow>
                        (case prob_dict (clf_classes model) probs of
                           Inl err \<Rightarrow> Inl err
                         | Inr pd \<Rightarrow>
                            Inr (Predicted \<lparr>predicted_user = predicted,
                                            confidence = conf,
                                            probabilities = pd\<rparr>))))))"

subsection \<open>app.py: the two guarded actions\<close>

definition PROMPT_TEXT :: string where
  "PROMPT_TEXT = ''the quick brown fox jumps over the lazy dog''"

text \<open>
  What an action of the application ends with. The three warnings are message boxes of the
  source, each followed by \<^verbatim>\<open>return\<close>:
  \<^item> \<open>EmptyText\<close>: \<^verbatim>\<open>Please type something first.\<close>
  \<^item> \<open>ValidationFailed\<close>: \<^verbatim>\<open>Typed text doesn't match the prompt well enough.\<close>
  \<^item> \<open>TooFewEvents\<close>: \<^verbatim>\<open>Not enough key events captured.\<close>

  \<open>Saved\<close> is the information box after a session was written, \<open>Shown\<close> a displayed
  prediction, \<open>ErrorBox\<close> the error box for a failed result or a caught exception, and
  \<open>Raised\<close> an exception that leaves the action.

  The state holds what the two actions read and write: the two text widgets, the selected
  user label, the two event lists and the files. The session start times, which only the key
  handlers read, are left out.
\<close>

datatype warning = EmptyText | ValidationFailed | TooFewEvents

datatype failure = ModelMissing | Caught py_error

datatype outcome =
    Warning warning
  | Saved string nat
  | Shown prediction
  | ErrorBox failure
  | Raised py_error

record app_state =
  text_input :: string
  user_var :: string
  current_events :: "event list"
  predict_text_input :: string
  predict_events :: "event list"
  files :: filesystem

text \<open>\<^verbatim>\<open>sum(1 for s in sessions if s['user'] == user)\<close>: the lookup \<^verbatim>\<open>s['user']\<close> raises
  KeyError on a stored session without that entry.\<close>

fun count_user :: "session list \<Rightarrow> string \<Rightarrow> py_error + nat" where
  "count_user [] user = Inr 0"
| "count_user (s # sessions) user =
     (case s_user s of
        None \<Rightarrow> Inl KeyError
      | Some u \<Rightarrow>
         (case count_user sessions user of
            Inl err \<Rightarrow> Inl err
          | Inr n \<Rightarrow> Inr (if u = user then n + 1 else n)))"

text \<open>\<open>save_session\<close>; the second argument is the time stamp \<^verbatim>\<open>datetime.now().isoformat()\<close>.
  The text widget is cleared only at the very end, after the file was written.\<close>

definition save_session :: "app_state \<Rightarrow> string \<Rightarrow> outcome \<times> app_state" where
  "save_session st now =
     (let typed_text = py_strip (text_input st);
          user = user_var st
      in if typed_text = [] then (Warning EmptyText, st)
         else if \<not> validate_typed_text typed_text PROMPT_TEXT default_min_similarity
              then (Warning ValidationFailed, st)
         else if length (current_events st) < 4 then (Warning TooFewEvents, st)
         else case (case files st default_data_path of
                      None \<Rightarrow> Inr []
                    | Some (SessionsJson stored) \<Rightarrow> Inr stored
                    | Some _ \<Rightarrow> Inl DecodeError) of
                Inl err \<Rightarrow> (Raised err, st)
              | Inr stored \<Rightarrow>
                 (let new_session = \<lparr>s_user = Some user,
                                      s_events = Some (current_events st),
                                      s_typed_text = typed_text,
                                      s_created_at = now\<rparr>;
                      sessions = stored @ [new_session];
                      st1 = st\<lparr>files := (files st)(default_data_path \<mapsto> SessionsJson sessions)\<rparr>
                  in case count_user sessions user of
                       Inl err \<Rightarrow> (Raised err, st1)
                     | Inr n \<Rightarrow>
                        (Saved user n, st1\<lparr>text_input := [], current_events := []\<rparr>)))"

text \<open>\<open>predict_action\<close>; the call of \<^verbatim>\<open>predict_user\<close> sits in a \<^verbatim>\<open>try\<close> whose handler shows an
  error box.\<close>

definition predict_action :: "app_state \<Rightarrow> outcome" where
  "predict_action st =
     (let typed_text = py_strip (predict_text_input st)
      in if typed_text = [] then Warning EmptyText
         else if \<not> validate_typed_text typed_text PROMPT_TEXT default_min_similarity
              then Warning ValidationFailed
         else if length (predict_events st) < 4 then Warning TooFewEvents
         else case predict_user (files st) (predict_events st) default_model_path of
                Inl err \<Rightarrow> ErrorBox (Caught err)
              | Inr ModelNotFound \<Rightarrow> ErrorBox ModelMissing
              | Inr (Predicted p) \<Rightarrow> Shown p)"

subsection \<open>Training as the specification words it\<close>



subsection \<open>Example data\<close>

text \<open>A stored session of four events, a classifier that always answers A, and a
  scikit-learn whose split puts the first two rows into the test partition.\<close>

definition example_events :: "event list" where
  "example_events =
     [\<lparr>ev_key = ''a'', ev_type = ''down'', ev_t = 0\<rparr>,
      \<lparr>ev_key = ''a'', ev_type = ''up'', ev_t = 100\<rparr>,
      \<lparr>ev_key = ''b'', ev_type = ''down'', ev_t = 150\<rparr>,
      \<lparr>ev_key = ''b'', ev_type = ''up'', ev_t = 250\<rparr>]"


definition example_classifier :: classifier where
  "example_classifier =
     \<lparr>clf_classes = [''A'', ''B''],
      clf_predict = (\<lambda>row. ''A''),
      clf_predict_proba = (\<lambda>row. [3 / 4, 1 / 4])\<rparr>"


text \<open>A state of the application with a trained model on disk; the same text and events in
  the collection tab and in the prediction tab.\<close>

definition example_state :: "string \<Rightarrow> event list \<Rightarrow> app_state" where
  "example_state typed evs =
     \<lparr>text_input = typed, user_var = ''A'', current_events = evs,
      predict_text_input = typed, predict_events = evs,
      files = [default_model_path \<mapsto> ModelJoblib example_classifier]\<rparr>"

subsection \<open>extract\_features on Python floats: overflow\<close>


























section \<open>Properties\<close>

subsection \<open>No step of extract\_features raises\<close>










subsection \<open>The matching loop is the per-key queue discipline\<close>

lemma insort_key_map:
  "insort_key f (g x) (map g xs) = map g (insort_key (\<lambda>a. f (g a)) x xs)"
  by (induction xs) auto

lemma sort_key_map: "sort_key f (map g xs) = map g (sort_key (\<lambda>a. f (g a)) xs)"
  by (induction xs) (auto simp: insort_key_map)

lemma all_events_triple: "all_events events = map triple (sort_key ev_t events)"
proof -
  have "(\<lambda>a. fst (triple a)) = ev_t" by (auto simp: triple_def)
  then show ?thesis
    using sort_key_map [of fst triple events] by (simp add: all_events_def triple_def [abs_def])
qed

lemma queues_of_upd: "queues_of (pd(k \<mapsto> q)) = (queues_of pd)(k := q)"
  by (simp add: queues_of_def fun_eq_iff)

lemma match_step_down_eq:
  assumes "ev_type e = ''down''"
  shows "match_step (triple e) (pd, dw)
           = Inr (pd(ev_key e \<mapsto> queues_of pd (ev_key e) @ [ev_t e]), dw)"
proof (cases "pd (ev_key e)")
  case None
  then show ?thesis
    using assms by (simp add: match_step_def triple_def dict_get_def queues_of_def dom_def)
next
  case (Some q)
  then show ?thesis
    using assms by (simp add: match_step_def triple_def dict_get_def queues_of_def dom_def)
qed

lemma match_step_down:
  "ev_type e = ''down'' \<Longrightarrow>
   \<exists>pd'. match_step (triple e) (pd, dw) = Inr (pd', dw)
       \<and> queues_of pd' = (queues_of pd)(ev_key e := queues_of pd (ev_key e) @ [ev_t e])"
  using match_step_down_eq [of e pd dw] queues_of_upd by blast

lemma match_step_up_empty:
  assumes "ev_type e = ''up''" "queues_of pd (ev_key e) = []"
  shows "match_step (triple e) (pd, dw) = Inr (pd, dw)"
proof (cases "pd (ev_key e)")
  case None
  then show ?thesis
    using assms by (simp add: match_step_def triple_def dict_get_def dom_def)
next
  case (Some q)
  then have "q = []" using assms(2) by (simp add: queues_of_def)
  then show ?thesis
    using assms Some by (simp add: match_step_def triple_def dict_get_def dom_def)
qed

lemma match_step_up_pending_eq:
  assumes "ev_type e = ''up''" "queues_of pd (ev_key e) = p # rest"
  shows "match_step (triple e) (pd, dw)
           = Inr (pd(ev_key e \<mapsto> rest), dw @ (if ev_t e - p > 0 then [ev_t e - p] else []))"
proof (cases "pd (ev_key e)")
  case None
  then show ?thesis using assms(2) by (simp add: queues_of_def)
next
  case (Some q)
  then have "q = p # rest" using assms(2) by (simp add: queues_of_def)
  then show ?thesis
    using assms(1) Some
    by (simp add: match_step_def triple_def dict_get_def dom_def pop0_def)
qed

lemma match_step_up_pending:
  "ev_type e = ''up'' \<Longrightarrow> queues_of pd (ev_key e) = p # rest \<Longrightarrow>
   \<exists>pd'. match_step (triple e) (pd, dw)
           = Inr (pd', dw @ (if ev_t e - p > 0 then [ev_t e - p] else []))
       \<and> queues_of pd' = (queues_of pd)(ev_key e := rest)"
  using match_step_up_pending_eq [of e pd p rest dw] queues_of_upd by blast

lemma match_step_other:
  "ev_type e \<noteq> ''down'' \<Longrightarrow> ev_type e \<noteq> ''up'' \<Longrightarrow>
   match_step (triple e) (pd, dw) = Inr (pd, dw)"
  by (simp add: match_step_def triple_def)

lemma match_loop_refines:
  "\<exists>pd'. match_loop (map triple es) (pd, dw) = Inr (pd', dw @ spec_dwell es (queues_of pd))"
proof (induction es arbitrary: pd dw)
  case Nil
  show ?case by simp
next
  case (Cons e es)
  consider (down) "ev_type e = ''down''"
    | (up_empty) "ev_type e = ''up''" "queues_of pd (ev_key e) = []"
    | (up_pending) p rest where "ev_type e = ''up''" "queues_of pd (ev_key e) = p # rest"
    | (other) "ev_type e \<noteq> ''down''" "ev_type e \<noteq> ''up''"
    by (cases "queues_of pd (ev_key e)") auto
  then show ?case
  proof cases
    case down
    from match_step_down [OF down, of pd dw] obtain pd1 where
      st: "match_step (triple e) (pd, dw) = Inr (pd1, dw)" and
      q: "queues_of pd1 = (queues_of pd)(ev_key e := queues_of pd (ev_key e) @ [ev_t e])"
      by blast
    have sp: "spec_dwell (e # es) (queues_of pd) = spec_dwell es (queues_of pd1)"
      using down by (simp add: q)
    from Cons.IH [of pd1 dw] obtain pd' where
      "match_loop (map triple es) (pd1, dw) = Inr (pd', dw @ spec_dwell es (queues_of pd1))"
      by blast
    then have "match_loop (map triple (e # es)) (pd, dw)
                 = Inr (pd', dw @ spec_dwell (e # es) (queues_of pd))"
      by (simp only: sp list.map match_loop.simps st sum.case)
    then show ?thesis by blast
  next
    case up_empty
    have sp: "spec_dwell (e # es) (queues_of pd) = spec_dwell es (queues_of pd)"
      using up_empty by simp
    have st: "match_step (triple e) (pd, dw) = Inr (pd, dw)"
      using match_step_up_empty [OF up_empty] .
    from Cons.IH [of pd dw] obtain pd' where
      "match_loop (map triple es) (pd, dw) = Inr (pd', dw @ spec_dwell es (queues_of pd))"
      by blast
    then have "match_loop (map triple (e # es)) (pd, dw)
                 = Inr (pd', dw @ spec_dwell (e # es) (queues_of pd))"
      by (simp only: sp list.map match_loop.simps st sum.case)
    then show ?thesis by blast
  next
    case up_pending
    let ?d = "if ev_t e - p > 0 then [ev_t e - p] else []"
    from match_step_up_pending [OF up_pending, of dw] obtain pd1 where
      st: "match_step (triple e) (pd, dw) = Inr (pd1, dw @ ?d)" and
      q: "queues_of pd1 = (queues_of pd)(ev_key e := rest)"
      by blast
    have "ev_type e \<noteq> ''down''" using up_pending(1) by simp
    then have sp: "spec_dwell (e # es) (queues_of pd) = ?d @ spec_dwell es (queues_of pd1)"
      using up_pending by (simp add: q)
    from Cons.IH [of pd1 "dw @ ?d"] obtain pd' where
      "match_loop (map triple es) (pd1, dw @ ?d)
         = Inr (pd', (dw @ ?d) @ spec_dwell es (queues_of pd1))"
      by blast
    then have "match_loop (map triple (e # es)) (pd, dw)
                 = Inr (pd', dw @ spec_dwell (e # es) (queues_of pd))"
      by (simp only: sp list.map match_loop.simps st sum.case append_assoc)
    then show ?thesis by blast
  next
    case other
    have sp: "spec_dwell (e # es) (queues_of pd) = spec_dwell es (queues_of pd)"
      using other by simp
    have st: "match_step (triple e) (pd, dw) = Inr (pd, dw)"
      using match_step_other [OF other] .
    from Cons.IH [of pd dw] obtain pd' where
      "match_loop (map triple es) (pd, dw) = Inr (pd', dw @ spec_dwell es (queues_of pd))"
      by blast
    then have "match_loop (map triple (e # es)) (pd, dw)
                 = Inr (pd', dw @ spec_dwell (e # es) (queues_of pd))"
      by (simp only: sp list.map match_loop.simps st sum.case)
    then show ?thesis by blast
  qed
qed

lemma dwell_times_of_spec: "dwell_times_of events = Inr (spec_dwell_samples events)"
proof -
  have q0: "queues_of Map.empty = (\<lambda>k. [])" by (simp add: queues_of_def fun_eq_iff)
  from match_loop_refines [of "sort_key ev_t events" Map.empty "[]"] obtain pd' where
    "match_loop (all_events events) (Map.empty, []) = Inr (pd', spec_dwell_samples events)"
    by (auto simp: all_events_triple q0 spec_dwell_samples_def)
  then show ?thesis by (simp add: dwell_times_of_def)
qed

subsection \<open>The flight loop reads the sorted press timestamps\<close>

lemma flight_loop_Cons2:
  "flight_loop (a # b # rest)
     = (if fst b - fst a > 0 then [fst b - fst a] else []) @ flight_loop (b # rest)"
proof -
  have "[0..<length (a # b # rest) - 1] = 0 # map Suc [0..<length (b # rest) - 1]"
    by (simp add: map_Suc_upt upt_conv_Cons del: upt_Suc)
  then show ?thesis
    by (simp add: flight_loop_def Let_def o_def del: upt_Suc cong: if_cong)
qed

lemma flight_loop_short: "flight_loop [] = []" "flight_loop [a] = []"
  by (simp_all add: flight_loop_def)

lemma flight_loop_diffs:
  "flight_loop ads = filter (\<lambda>d. d > 0) (consecutive_diffs (map fst ads))"
proof (induction ads rule: induct_list012)
  case 1
  show ?case by (simp add: flight_loop_short)
next
  case (2 x)
  show ?case by (simp add: flight_loop_short)
next
  case (3 x y zs)
  have "flight_loop (x # y # zs)
          = (if fst y - fst x > 0 then [fst y - fst x] else []) @ flight_loop (y # zs)"
    by (rule flight_loop_Cons2)
  also have "\<dots> = filter (\<lambda>d. d > 0) (consecutive_diffs (map fst (x # y # zs)))"
    using "3.IH"(2) by simp
  finally show ?case .
qed

lemma mset_flat_dict_append:
  "mset (flat (dict_append d k v)) = add_mset (v, k) (mset (flat d))"
  by (induction d k v rule: dict_append.induct) (auto simp: flat_def)

lemma mset_flat_separate_fold:
  "mset (flat (fst (fold separate_step es (kd, ku))))
     = mset (flat kd)
       + mset (map (\<lambda>e. (ev_t e, ev_key e)) (filter (\<lambda>e. ev_type e = ''down'') es))"
proof (induction es arbitrary: kd ku)
  case Nil
  show ?case by simp
next
  case (Cons e es)
  show ?case
  proof (cases "ev_type e = ''down''")
    case True
    then have "separate_step e (kd, ku) = (dict_append kd (ev_key e) (ev_t e), ku)"
      by (simp add: separate_step_def)
    then show ?thesis using True Cons.IH by (simp add: mset_flat_dict_append)
  next
    case False
    then have "separate_step e (kd, ku)
                 = (kd, if ev_type e = ''up'' then dict_append ku (ev_key e) (ev_t e) else ku)"
      by (simp add: separate_step_def)
    then obtain ku' where "separate_step e (kd, ku) = (kd, ku')" by blast
    then show ?thesis using False Cons.IH [of kd ku'] by simp
  qed
qed

lemma sort_mset_cong: "mset xs = mset ys \<Longrightarrow> sort xs = sort ys"
  for xs :: "'a::linorder list"
  by (rule properties_for_sort) simp_all

lemma all_downs_times:
  "map fst (all_downs events) = sort (map ev_t (filter (\<lambda>e. ev_type e = ''down'') events))"
proof -
  let ?f = "flat (fst (separate events))"
  have "all_downs events = sort_key fst ?f" by (simp add: all_downs_def flat_def)
  moreover have "sort_key (\<lambda>x. x) (map fst ?f) = map fst (sort_key (\<lambda>a. fst a) ?f)"
    by (rule sort_key_map)
  ultimately have 1: "map fst (all_downs events) = sort (map fst ?f)" by simp
  have "mset ?f = mset (map (\<lambda>e. (ev_t e, ev_key e)) (filter (\<lambda>e. ev_type e = ''down'') events))"
    using mset_flat_separate_fold [of events "[]" "[]"] by (simp add: separate_def flat_def)
  then have "image_mset fst (mset ?f)
               = image_mset fst (mset (map (\<lambda>e. (ev_t e, ev_key e))
                                          (filter (\<lambda>e. ev_type e = ''down'') events)))"
    by (rule arg_cong)
  then have "mset (map fst ?f)
               = mset (map fst (map (\<lambda>e. (ev_t e, ev_key e))
                                    (filter (\<lambda>e. ev_type e = ''down'') events)))"
    by (simp only: mset_map)
  moreover have "map fst (map (\<lambda>e. (ev_t e, ev_key e)) (filter (\<lambda>e. ev_type e = ''down'') events))
                  = map ev_t (filter (\<lambda>e. ev_type e = ''down'') events)"
    by simp
  ultimately
  have "mset (map fst ?f) = mset (map ev_t (filter (\<lambda>e. ev_type e = ''down'') events))"
    by (simp only:)
  from sort_mset_cong [OF this] 1 show ?thesis by simp
qed

lemma flight_times_of_spec: "flight_times_of events = spec_flight_samples events"
  by (simp add: flight_times_of_def flight_loop_diffs all_downs_times spec_flight_samples_def)

subsection \<open>Reordering the input\<close>

lemma length_events_of_mset: "mset xs = mset ys \<Longrightarrow> length xs = length ys"
  by (metis size_mset)

lemma sort_key_stable_cong:
  assumes "mset xs = mset ys"
    and "\<And>k. filter (\<lambda>e. f e = k) xs = filter (\<lambda>e. f e = k) ys"
  shows "sort_key f xs = sort_key f ys"
proof (rule properties_for_sort_key)
  show "mset (sort_key f ys) = mset xs" using assms(1) by simp
  show "sorted (map f (sort_key f ys))" by simp
  fix k
  have "filter (\<lambda>x. f k = f x) (sort_key f ys) = filter (\<lambda>x. f x = f k) (sort_key f ys)"
    by (rule filter_cong) auto
  also have "\<dots> = filter (\<lambda>x. f x = f k) ys" by (rule sort_key_stable)
  also have "\<dots> = filter (\<lambda>x. f x = f k) xs" using assms(2) [of "f k"] by simp
  also have "\<dots> = filter (\<lambda>x. f k = f x) xs" by (rule filter_cong) auto
  finally show "filter (\<lambda>x. f k = f x) (sort_key f ys) = filter (\<lambda>x. f k = f x) xs" .
qed

lemma spec_flight_samples_mset:
  assumes "mset xs = mset ys"
  shows "spec_flight_samples xs = spec_flight_samples ys"
proof -
  have "mset (filter (\<lambda>e. ev_type e = ''down'') xs) = mset (filter (\<lambda>e. ev_type e = ''down'') ys)"
    using assms by (simp only: mset_filter)
  then have "image_mset ev_t (mset (filter (\<lambda>e. ev_type e = ''down'') xs))
               = image_mset ev_t (mset (filter (\<lambda>e. ev_type e = ''down'') ys))"
    by (rule arg_cong)
  then have "mset (map ev_t (filter (\<lambda>e. ev_type e = ''down'') xs))
               = mset (map ev_t (filter (\<lambda>e. ev_type e = ''down'') ys))"
    by (simp only: mset_map)
  from sort_mset_cong [OF this] show ?thesis by (simp add: spec_flight_samples_def)
qed

lemma extract_features_stable_perm:
  assumes "mset xs = mset ys"
    and "\<And>k. filter (\<lambda>e. ev_t e = k) xs = filter (\<lambda>e. ev_t e = k) ys"
  shows "extract_features xs = extract_features ys"
proof -
  have "sort_key ev_t xs = sort_key ev_t ys" using assms by (rule sort_key_stable_cong)
  then have d: "dwell_times_of xs = dwell_times_of ys"
    by (simp add: dwell_times_of_spec spec_dwell_samples_def)
  have f: "flight_times_of xs = flight_times_of ys"
    using spec_flight_samples_mset [OF assms(1)] by (simp add: flight_times_of_spec)
  have l: "length xs = length ys" using assms(1) by (rule length_events_of_mset)
  show ?thesis by (simp only: extract_features_def d f l)
qed

lemma extract_features_distinct_perm:
  assumes "mset xs = mset ys" and "distinct (map ev_t xs)"
  shows "extract_features xs = extract_features ys"
proof (rule extract_features_stable_perm [OF assms(1)])
  fix k
  have inj: "inj_on ev_t (set xs)" using assms(2) by (simp add: distinct_map)
  have "sort_key ev_t xs = sort_key ev_t ys"
    by (rule sort_key_inj_key_eq) (use assms(1) inj in simp_all)
  then have "filter (\<lambda>e. ev_t e = k) (sort_key ev_t xs) = filter (\<lambda>e. ev_t e = k) (sort_key ev_t ys)"
    by simp
  then show "filter (\<lambda>e. ev_t e = k) xs = filter (\<lambda>e. ev_t e = k) ys"
    by (simp only: sort_key_stable)
qed

lemma keyed_dwell_down:
  "ev_type e = ''down'' \<Longrightarrow>
   keyed_dwell (e # es) q = keyed_dwell es (q(ev_key e := q (ev_key e) @ [ev_t e]))"
  by simp

lemma keyed_dwell_up_Nil:
  "ev_type e = ''up'' \<Longrightarrow> q (ev_key e) = [] \<Longrightarrow> keyed_dwell (e # es) q = keyed_dwell es q"
  by simp

lemma keyed_dwell_up_Cons:
  "ev_type e = ''up'' \<Longrightarrow> q (ev_key e) = p # r \<Longrightarrow>
   keyed_dwell (e # es) q
     = (if ev_t e - p > 0 then [(ev_key e, ev_t e - p)] else [])
         @ keyed_dwell es (q(ev_key e := r))"
  by simp

lemma keyed_dwell_other:
  "ev_type e \<noteq> ''down'' \<Longrightarrow> ev_type e \<noteq> ''up'' \<Longrightarrow> keyed_dwell (e # es) q = keyed_dwell es q"
  by simp

lemma spec_dwell_down:
  "ev_type e = ''down'' \<Longrightarrow>
   spec_dwell (e # es) q = spec_dwell es (q(ev_key e := q (ev_key e) @ [ev_t e]))"
  by simp

lemma spec_dwell_up_Nil:
  "ev_type e = ''up'' \<Longrightarrow> q (ev_key e) = [] \<Longrightarrow> spec_dwell (e # es) q = spec_dwell es q"
  by simp

lemma spec_dwell_up_Cons:
  "ev_type e = ''up'' \<Longrightarrow> q (ev_key e) = p # r \<Longrightarrow>
   spec_dwell (e # es) q
     = (if ev_t e - p > 0 then [ev_t e - p] else []) @ spec_dwell es (q(ev_key e := r))"
  by simp

lemma spec_dwell_other:
  "ev_type e \<noteq> ''down'' \<Longrightarrow> ev_type e \<noteq> ''up'' \<Longrightarrow> spec_dwell (e # es) q = spec_dwell es q"
  by simp

lemma map_snd_keyed_dwell: "map snd (keyed_dwell es q) = spec_dwell es q"
proof (induction es arbitrary: q)
  case Nil
  show ?case by simp
next
  case (Cons e es)
  consider (down) "ev_type e = ''down''"
    | (up_Nil) "ev_type e = ''up''" "q (ev_key e) = []"
    | (up_Cons) p r where "ev_type e = ''up''" "q (ev_key e) = p # r"
    | (other) "ev_type e \<noteq> ''down''" "ev_type e \<noteq> ''up''"
    by (cases "q (ev_key e)") auto
  then show ?case
  proof cases
    case down
    show ?thesis
      by (simp only: keyed_dwell_down [OF down] spec_dwell_down [OF down] Cons.IH)
  next
    case up_Nil
    show ?thesis
      by (simp only: keyed_dwell_up_Nil [of e q, OF up_Nil] spec_dwell_up_Nil [of e q, OF up_Nil] Cons.IH)
  next
    case (up_Cons p r)
    have "map snd (if ev_t e - p > 0 then [(ev_key e, ev_t e - p)] else [])
            = (if ev_t e - p > 0 then [ev_t e - p] else [])"
      by simp
    then show ?thesis
      by (simp only: keyed_dwell_up_Cons [of e q p r, OF up_Cons] spec_dwell_up_Cons [of e q p r, OF up_Cons]
                     Cons.IH map_append)
  next
    case other
    show ?thesis
      by (simp only: keyed_dwell_other [OF other] spec_dwell_other [OF other] Cons.IH)
  qed
qed

lemma keyed_dwell_other_queue:
  "q k = q' k \<Longrightarrow>
   keyed_dwell (filter (\<lambda>e. ev_key e = k) es) q = keyed_dwell (filter (\<lambda>e. ev_key e = k) es) q'"
proof (induction es arbitrary: q q')
  case Nil
  show ?case by simp
next
  case (Cons e es)
  let ?F = "filter (\<lambda>e. ev_key e = k) es"
  have s: "keyed_dwell ?F q = keyed_dwell ?F q'"
    by (rule Cons.IH) (rule Cons.prems)
  show ?case
  proof (cases "ev_key e = k")
    case False
    then have "filter (\<lambda>e. ev_key e = k) (e # es) = ?F" by simp
    then show ?thesis by (simp only: s)
  next
    case True
    have d: "keyed_dwell ?F (q(ev_key e := v)) = keyed_dwell ?F (q'(ev_key e := v))" for v
      by (rule Cons.IH) (simp add: Cons.prems)
    have f: "filter (\<lambda>e. ev_key e = k) (e # es) = e # ?F" using True by simp
    have qq: "q' (ev_key e) = q (ev_key e)" using True Cons.prems by simp
    consider (down) "ev_type e = ''down''"
      | (up_Nil) "ev_type e = ''up''" "q (ev_key e) = []"
      | (up_Cons) p r where "ev_type e = ''up''" "q (ev_key e) = p # r"
      | (other) "ev_type e \<noteq> ''down''" "ev_type e \<noteq> ''up''"
      by (cases "q (ev_key e)") auto
    then show ?thesis
    proof cases
      case down
      show ?thesis
        by (simp only: f keyed_dwell_down [OF down] qq d)
    next
      case up_Nil
      have "q' (ev_key e) = []" using up_Nil qq by simp
      then show ?thesis
        by (simp only: f keyed_dwell_up_Nil [OF up_Nil(1)] up_Nil s)
    next
      case (up_Cons p r)
      have "q' (ev_key e) = p # r" using up_Cons qq by simp
      then show ?thesis
        by (simp only: f keyed_dwell_up_Cons [OF up_Cons(1)] up_Cons d)
    next
      case other
      show ?thesis
        by (simp only: f keyed_dwell_other [OF other] s)
    qed
  qed
qed

lemma filter_keyed_dwell:
  "filter (\<lambda>p. fst p = k) (keyed_dwell es q)
     = keyed_dwell (filter (\<lambda>e. ev_key e = k) es) q"
proof (induction es arbitrary: q)
  case Nil
  show ?case by simp
next
  case (Cons e es)
  let ?F = "filter (\<lambda>e. ev_key e = k) es"
  have IH: "filter (\<lambda>p. fst p = k) (keyed_dwell es q') = keyed_dwell ?F q'" for q'
    by (rule Cons.IH)
  show ?case
  proof (cases "ev_key e = k")
    case True
    have f: "filter (\<lambda>e. ev_key e = k) (e # es) = e # ?F" using True by simp
    consider (down) "ev_type e = ''down''"
      | (up_Nil) "ev_type e = ''up''" "q (ev_key e) = []"
      | (up_Cons) p r where "ev_type e = ''up''" "q (ev_key e) = p # r"
      | (other) "ev_type e \<noteq> ''down''" "ev_type e \<noteq> ''up''"
      by (cases "q (ev_key e)") auto
    then show ?thesis
    proof cases
      case down
      show ?thesis by (simp only: f keyed_dwell_down [OF down] IH)
    next
      case up_Nil
      show ?thesis by (simp only: f keyed_dwell_up_Nil [of e q, OF up_Nil] IH)
    next
      case (up_Cons p r)
      have "filter (\<lambda>p. fst p = k) (if ev_t e - p > 0 then [(ev_key e, ev_t e - p)] else [])
              = (if ev_t e - p > 0 then [(ev_key e, ev_t e - p)] else [])"
        using True by simp
      then show ?thesis
        by (simp only: f keyed_dwell_up_Cons [of e q p r, OF up_Cons] IH filter_append)
    next
      case other
      show ?thesis by (simp only: f keyed_dwell_other [OF other] IH)
    qed
  next
    case False
    have f: "filter (\<lambda>e. ev_key e = k) (e # es) = ?F" using False by simp
    have o: "keyed_dwell ?F (q(ev_key e := v)) = keyed_dwell ?F q" for v
      by (rule keyed_dwell_other_queue) (use False in simp)
    consider (down) "ev_type e = ''down''"
      | (up_Nil) "ev_type e = ''up''" "q (ev_key e) = []"
      | (up_Cons) p r where "ev_type e = ''up''" "q (ev_key e) = p # r"
      | (other) "ev_type e \<noteq> ''down''" "ev_type e \<noteq> ''up''"
      by (cases "q (ev_key e)") auto
    then show ?thesis
    proof cases
      case down
      show ?thesis by (simp only: f keyed_dwell_down [OF down] IH o)
    next
      case up_Nil
      show ?thesis by (simp only: f keyed_dwell_up_Nil [of e q, OF up_Nil] IH)
    next
      case (up_Cons p r)
      have "filter (\<lambda>p. fst p = k) (if ev_t e - p > 0 then [(ev_key e, ev_t e - p)] else [])
              = []"
        using False by simp
      then show ?thesis
        by (simp only: f keyed_dwell_up_Cons [of e q p r, OF up_Cons] IH o filter_append append_Nil)
    next
      case other
      show ?thesis by (simp only: f keyed_dwell_other [OF other] IH)
    qed
  qed
qed

lemma mset_by_key:
  assumes "\<And>k. filter (\<lambda>p. fst p = k) l1 = filter (\<lambda>p. fst p = k) l2"
  shows "mset l1 = mset l2"
proof (rule multiset_eqI)
  fix x
  have "count (mset l1) x = count (mset (filter (\<lambda>p. fst p = fst x) l1)) x" by simp
  also have "\<dots> = count (mset (filter (\<lambda>p. fst p = fst x) l2)) x"
    by (simp only: assms)
  also have "\<dots> = count (mset l2) x" by simp
  finally show "count (mset l1) x = count (mset l2) x" .
qed

lemma sum_list_mset_cong:
  fixes xs ys :: "real list"
  shows "mset xs = mset ys \<Longrightarrow> sum_list xs = sum_list ys"
  by (metis sum_mset_sum_list)

lemma mset_map_cong: "mset xs = mset ys \<Longrightarrow> mset (map f xs) = mset (map f ys)"
proof -
  assume "mset xs = mset ys"
  then have "image_mset f (mset xs) = image_mset f (mset ys)" by (rule arg_cong)
  then show ?thesis by (simp only: mset_map)
qed

lemma calc_stats_mset_cong:
  assumes "mset xs = mset ys"
  shows "calc_stats xs = calc_stats ys"
proof -
  have l: "length xs = length ys" using assms by (rule length_events_of_mset)
  have e: "xs = [] \<longleftrightarrow> ys = []" using l by auto
  have s: "sum_list xs = sum_list ys" using assms by (rule sum_list_mset_cong)
  have o: "sort xs = sort ys" using assms by (rule sort_mset_cong)
  have q: "sum_list (map f xs) = sum_list (map f ys)" for f :: "real \<Rightarrow> real"
    using mset_map_cong [OF assms, of f] by (rule sum_list_mset_cong)
  show ?thesis
    by (simp only: calc_stats_def statistics_mean_def statistics_stdev_def
                   statistics_median_def Let_def l e s o q)
qed


lemma extract_features_keyed_perm:
  assumes "mset xs = mset ys"
    and "\<And>k t. filter (\<lambda>e. ev_key e = k \<and> ev_t e = t) xs
                 = filter (\<lambda>e. ev_key e = k \<and> ev_t e = t) ys"
  shows "extract_features xs = extract_features ys"
proof -
  let ?sx = "sort_key ev_t xs" and ?sy = "sort_key ev_t ys"
  have per_key: "filter (\<lambda>e. ev_key e = k) ?sx = filter (\<lambda>e. ev_key e = k) ?sy" for k
  proof -
    have m: "mset (filter (\<lambda>e. ev_key e = k) xs) = mset (filter (\<lambda>e. ev_key e = k) ys)"
      using assms(1) by (simp only: mset_filter)
    have t: "filter (\<lambda>e. ev_t e = t) (filter (\<lambda>e. ev_key e = k) xs)
               = filter (\<lambda>e. ev_t e = t) (filter (\<lambda>e. ev_key e = k) ys)" for t
      using assms(2) [of k t] by (simp only: filter_filter)
    have "sort_key ev_t (filter (\<lambda>e. ev_key e = k) xs)
            = sort_key ev_t (filter (\<lambda>e. ev_key e = k) ys)"
      using m t by (rule sort_key_stable_cong)
    then show ?thesis by (simp only: filter_sort)
  qed
  have "filter (\<lambda>p. fst p = k) (keyed_dwell ?sx (\<lambda>k. []))
          = filter (\<lambda>p. fst p = k) (keyed_dwell ?sy (\<lambda>k. []))" for k
    by (simp only: filter_keyed_dwell per_key)
  then have "mset (keyed_dwell ?sx (\<lambda>k. [])) = mset (keyed_dwell ?sy (\<lambda>k. []))"
    by (rule mset_by_key)
  then have "mset (map snd (keyed_dwell ?sx (\<lambda>k. [])))
               = mset (map snd (keyed_dwell ?sy (\<lambda>k. [])))"
    by (rule mset_map_cong)
  then have "mset (spec_dwell_samples xs) = mset (spec_dwell_samples ys)"
    by (simp only: map_snd_keyed_dwell spec_dwell_samples_def)
  then have c: "calc_stats (spec_dwell_samples xs) = calc_stats (spec_dwell_samples ys)"
    by (rule calc_stats_mset_cong)
  have f: "flight_times_of xs = flight_times_of ys"
    using spec_flight_samples_mset [OF assms(1)] by (simp add: flight_times_of_spec)
  have l: "length xs = length ys" using assms(1) by (rule length_events_of_mset)
  show ?thesis
    by (simp only: extract_features_def dwell_times_of_spec sum.case c f l)
qed

text \<open>
  Claim C1, as amended. The sort inside \<^verbatim>\<open>extract_features\<close> is stable, so events of equal
  timestamp keep their input order; the matching loop works key by key, and the statistics do
  not depend on the order of the samples. The result is therefore the same for two event
  lists that are permutations of each other and agree, for every key and every timestamp, on
  the order of the events of that key at that timestamp. So events of different keys may be
  reordered freely, ties included, and every permutation is allowed when the timestamps are
  pairwise distinct. The result does depend on the timestamp values: a release at 100 and a
  release at 200 give different features.
\<close>

theorem C1_stable_reordering:
  "(mset xs = mset ys \<and>
    (\<forall>k t. filter (\<lambda>e. ev_key e = k \<and> ev_t e = t) xs
             = filter (\<lambda>e. ev_key e = k \<and> ev_t e = t) ys)
      \<longrightarrow> extract_features xs = extract_features ys) \<and>
   (mset xs' = mset ys' \<and> distinct (map ev_t xs')
      \<longrightarrow> extract_features xs' = extract_features ys') \<and>
   extract_features [\<lparr>ev_key = ''a'', ev_type = ''down'', ev_t = 0\<rparr>,
                     \<lparr>ev_key = ''a'', ev_type = ''up'', ev_t = 100\<rparr>]
     \<noteq> extract_features [\<lparr>ev_key = ''a'', ev_type = ''down'', ev_t = 0\<rparr>,
                          \<lparr>ev_key = ''a'', ev_type = ''up'', ev_t = 200\<rparr>]"
proof (intro conjI impI)
  assume "mset xs = mset ys \<and>
    (\<forall>k t. filter (\<lambda>e. ev_key e = k \<and> ev_t e = t) xs
             = filter (\<lambda>e. ev_key e = k \<and> ev_t e = t) ys)"
  then show "extract_features xs = extract_features ys"
    using extract_features_keyed_perm [of xs ys] by blast
next
  assume "mset xs' = mset ys' \<and> distinct (map ev_t xs')"
  then show "extract_features xs' = extract_features ys'"
    using extract_features_distinct_perm [of xs' ys'] by blast
next
  show "extract_features [\<lparr>ev_key = ''a'', ev_type = ''down'', ev_t = 0\<rparr>,
                          \<lparr>ev_key = ''a'', ev_type = ''up'', ev_t = 100\<rparr>]
     \<noteq> extract_features [\<lparr>ev_key = ''a'', ev_type = ''down'', ev_t = 0\<rparr>,
                          \<lparr>ev_key = ''a'', ev_type = ''up'', ev_t = 200\<rparr>]"
    by (simp add: extract_features_def dwell_times_of_spec spec_dwell_samples_def
        flight_times_of_spec spec_flight_samples_def calc_stats_def statistics_mean_def
        statistics_median_def)
qed

text \<open>A witness for C1: the two keystrokes of a list exchanged, with both presses at 0 and
  both releases at 5 (events of equal timestamp, not adjacent, change places), and a reversal
  of two events with distinct timestamps.\<close>

theorem C1_stable_reordering_witness:
  "mset [\<lparr>ev_key = ''a'', ev_type = ''down'', ev_t = 0\<rparr>,
         \<lparr>ev_key = ''a'', ev_type = ''up'', ev_t = 5\<rparr>,
         \<lparr>ev_key = ''b'', ev_type = ''down'', ev_t = 0\<rparr>,
         \<lparr>ev_key = ''b'', ev_type = ''up'', ev_t = 5\<rparr>]
     = mset [\<lparr>ev_key = ''b'', ev_type = ''down'', ev_t = 0\<rparr>,
             \<lparr>ev_key = ''b'', ev_type = ''up'', ev_t = 5\<rparr>,
             \<lparr>ev_key = ''a'', ev_type = ''down'', ev_t = 0\<rparr>,
             \<lparr>ev_key = ''a'', ev_type = ''up'', ev_t = 5\<rparr>] \<and>
   (\<forall>k t. filter (\<lambda>e. ev_key e = k \<and> ev_t e = t)
              [\<lparr>ev_key = ''a'', ev_type = ''down'', ev_t = 0\<rparr>,
               \<lparr>ev_key = ''a'', ev_type = ''up'', ev_t = 5\<rparr>,
               \<lparr>ev_key = ''b'', ev_type = ''down'', ev_t = 0\<rparr>,
               \<lparr>ev_key = ''b'', ev_type = ''up'', ev_t = 5\<rparr>]
          = filter (\<lambda>e. ev_key e = k \<and> ev_t e = t)
              [\<lparr>ev_key = ''b'', ev_type = ''down'', ev_t = 0\<rparr>,
               \<lparr>ev_key = ''b'', ev_type = ''up'', ev_t = 5\<rparr>,
               \<lparr>ev_key = ''a'', ev_type = ''down'', ev_t = 0\<rparr>,
               \<lparr>ev_key = ''a'', ev_type = ''up'', ev_t = 5\<rparr>]) \<and>
   extract_features [\<lparr>ev_key = ''a'', ev_type = ''down'', ev_t = 0\<rparr>,
                     \<lparr>ev_key = ''a'', ev_type = ''up'', ev_t = 5\<rparr>,
                     \<lparr>ev_key = ''b'', ev_type = ''down'', ev_t = 0\<rparr>,
                     \<lparr>ev_key = ''b'', ev_type = ''up'', ev_t = 5\<rparr>]
     = extract_features [\<lparr>ev_key = ''b'', ev_type = ''down'', ev_t = 0\<rparr>,
                         \<lparr>ev_key = ''b'', ev_type = ''up'', ev_t = 5\<rparr>,
                         \<lparr>ev_key = ''a'', ev_type = ''down'', ev_t = 0\<rparr>,
                         \<lparr>ev_key = ''a'', ev_type = ''up'', ev_t = 5\<rparr>] \<and>
   mset [\<lparr>ev_key = ''a'', ev_type = ''down'', ev_t = 0\<rparr>,
         \<lparr>ev_key = ''a'', ev_type = ''up'', ev_t = 100\<rparr>]
     = mset [\<lparr>ev_key = ''a'', ev_type = ''up'', ev_t = 100\<rparr>,
             \<lparr>ev_key = ''a'', ev_type = ''down'', ev_t = 0\<rparr>] \<and>
   distinct (map ev_t [\<lparr>ev_key = ''a'', ev_type = ''down'', ev_t = 0\<rparr>,
                       \<lparr>ev_key = ''a'', ev_type = ''up'', ev_t = 100\<rparr>]) \<and>
   extract_features [\<lparr>ev_key = ''a'', ev_type = ''down'', ev_t = 0\<rparr>,
                     \<lparr>ev_key = ''a'', ev_type = ''up'', ev_t = 100\<rparr>]
     = extract_features [\<lparr>ev_key = ''a'', ev_type = ''up'', ev_t = 100\<rparr>,
                         \<lparr>ev_key = ''a'', ev_type = ''down'', ev_t = 0\<rparr>]"
proof -
  let ?xs = "[\<lparr>ev_key = ''a'', ev_type = ''down'', ev_t = 0\<rparr>,
              \<lparr>ev_key = ''a'', ev_type = ''up'', ev_t = 5\<rparr>,
              \<lparr>ev_key = ''b'', ev_type = ''down'', ev_t = 0\<rparr>,
              \<lparr>ev_key = ''b'', ev_type = ''up'', ev_t = 5\<rparr>]"
  let ?ys = "[\<lparr>ev_key = ''b'', ev_type = ''down'', ev_t = 0\<rparr>,
              \<lparr>ev_key = ''b'', ev_type = ''up'', ev_t = 5\<rparr>,
              \<lparr>ev_key = ''a'', ev_type = ''down'', ev_t = 0\<rparr>,
              \<lparr>ev_key = ''a'', ev_type = ''up'', ev_t = 5\<rparr>]"
  let ?us = "[\<lparr>ev_key = ''a'', ev_type = ''down'', ev_t = 0\<rparr>,
              \<lparr>ev_key = ''a'', ev_type = ''up'', ev_t = 100\<rparr>]"
  let ?vs = "[\<lparr>ev_key = ''a'', ev_type = ''up'', ev_t = 100\<rparr>,
              \<lparr>ev_key = ''a'', ev_type = ''down'', ev_t = 0\<rparr>]"
  have m: "mset ?xs = mset ?ys" by simp
  have f: "\<forall>k t. filter (\<lambda>e. ev_key e = k \<and> ev_t e = t) ?xs
                 = filter (\<lambda>e. ev_key e = k \<and> ev_t e = t) ?ys"
    by auto
  have m2: "mset ?us = mset ?vs" by simp
  have d: "distinct (map ev_t ?us)" by simp
  from C1_stable_reordering [of ?xs ?ys ?us ?vs] m f m2 d
  show ?thesis by blast
qed

text \<open>
  Claim C1 as stated fails. Exchanging the first and the third event below (not adjacent,
  both at timestamp 5) changes the result: with the release first it finds no pending press
  and the later release at 10 gives the dwell sample 5; with the press first the release at 5
  consumes it with dwell 0, which is dropped, and no dwell sample is left.
\<close>

theorem C1_permutation_counterexample:
  "mset [\<lparr>ev_key = ''a'', ev_type = ''down'', ev_t = 5\<rparr>,
         \<lparr>ev_key = ''b'', ev_type = ''down'', ev_t = 1\<rparr>,
         \<lparr>ev_key = ''a'', ev_type = ''up'', ev_t = 5\<rparr>,
         \<lparr>ev_key = ''a'', ev_type = ''up'', ev_t = 10\<rparr>]
     = mset [\<lparr>ev_key = ''a'', ev_type = ''up'', ev_t = 5\<rparr>,
             \<lparr>ev_key = ''b'', ev_type = ''down'', ev_t = 1\<rparr>,
             \<lparr>ev_key = ''a'', ev_type = ''down'', ev_t = 5\<rparr>,
             \<lparr>ev_key = ''a'', ev_type = ''up'', ev_t = 10\<rparr>] \<and>
   extract_features [\<lparr>ev_key = ''a'', ev_type = ''up'', ev_t = 5\<rparr>,
                     \<lparr>ev_key = ''b'', ev_type = ''down'', ev_t = 1\<rparr>,
                     \<lparr>ev_key = ''a'', ev_type = ''down'', ev_t = 5\<rparr>,
                     \<lparr>ev_key = ''a'', ev_type = ''up'', ev_t = 10\<rparr>]
     = Inr \<lparr>dwell_mean = 5, dwell_std = 0, dwell_median = 5,
            flight_mean = 4, flight_std = 0, flight_median = 4\<rparr> \<and>
   extract_features [\<lparr>ev_key = ''a'', ev_type = ''down'', ev_t = 5\<rparr>,
                     \<lparr>ev_key = ''b'', ev_type = ''down'', ev_t = 1\<rparr>,
                     \<lparr>ev_key = ''a'', ev_type = ''up'', ev_t = 5\<rparr>,
                     \<lparr>ev_key = ''a'', ev_type = ''up'', ev_t = 10\<rparr>]
     = Inr \<lparr>dwell_mean = 0, dwell_std = 0, dwell_median = 0,
            flight_mean = 4, flight_std = 0, flight_median = 4\<rparr> \<and>
   extract_features [\<lparr>ev_key = ''a'', ev_type = ''up'', ev_t = 5\<rparr>,
                     \<lparr>ev_key = ''b'', ev_type = ''down'', ev_t = 1\<rparr>,
                     \<lparr>ev_key = ''a'', ev_type = ''down'', ev_t = 5\<rparr>,
                     \<lparr>ev_key = ''a'', ev_type = ''up'', ev_t = 10\<rparr>]
     \<noteq> extract_features [\<lparr>ev_key = ''a'', ev_type = ''down'', ev_t = 5\<rparr>,
                          \<lparr>ev_key = ''b'', ev_type = ''down'', ev_t = 1\<rparr>,
                          \<lparr>ev_key = ''a'', ev_type = ''up'', ev_t = 5\<rparr>,
                          \<lparr>ev_key = ''a'', ev_type = ''up'', ev_t = 10\<rparr>]"
  by (simp add: extract_features_def dwell_times_of_def all_events_def match_step_def
      dict_get_def pop0_def flight_times_of_def flight_loop_def all_downs_def separate_def
      separate_step_def calc_stats_def statistics_mean_def statistics_median_def)

subsection \<open>Dwell samples, flight samples and their statistics\<close>

text \<open>
  Claim C4. The dwell samples that \<^verbatim>\<open>extract_features\<close> computes are those of per-key
  first-in first-out matching over the events sorted by timestamp, and computing them never
  raises. Step by step, on the queues that \<^verbatim>\<open>pending_downs\<close> stands for: a press appends its
  timestamp to the queue of its key and records nothing; a release whose key has a pending
  press removes the oldest one and records the difference exactly when it is positive; a
  release whose key has no pending press changes nothing and is not an error.
\<close>

theorem C4_dwell_fifo_matching:
  "dwell_times_of events = Inr (spec_dwell_samples events) \<and>
   (ev_type e = ''down'' \<longrightarrow>
      (\<exists>pd'. match_step (triple e) (pd, dw) = Inr (pd', dw)
          \<and> queues_of pd' = (queues_of pd)(ev_key e := queues_of pd (ev_key e) @ [ev_t e]))) \<and>
   (ev_type e = ''up'' \<and> queues_of pd (ev_key e) = press_t # rest \<longrightarrow>
      (\<exists>pd'. match_step (triple e) (pd, dw)
               = Inr (pd', dw @ (if ev_t e - press_t > 0 then [ev_t e - press_t] else []))
          \<and> queues_of pd' = (queues_of pd)(ev_key e := rest))) \<and>
   (ev_type e = ''up'' \<and> queues_of pd (ev_key e) = [] \<longrightarrow>
      match_step (triple e) (pd, dw) = Inr (pd, dw))"
  using dwell_times_of_spec [of events] match_step_down [of e pd dw]
    match_step_up_pending [of e pd press_t rest dw] match_step_up_empty [of e pd dw]
  by blast

text \<open>A witness for C4: an unmatched release, two presses of one key matched oldest first,
  and a release of a key never pressed.\<close>

theorem C4_dwell_fifo_matching_witness:
  "dwell_times_of [\<lparr>ev_key = ''a'', ev_type = ''up'', ev_t = 3\<rparr>,
                   \<lparr>ev_key = ''a'', ev_type = ''down'', ev_t = 10\<rparr>,
                   \<lparr>ev_key = ''a'', ev_type = ''down'', ev_t = 20\<rparr>,
                   \<lparr>ev_key = ''b'', ev_type = ''up'', ev_t = 25\<rparr>,
                   \<lparr>ev_key = ''a'', ev_type = ''up'', ev_t = 50\<rparr>,
                   \<lparr>ev_key = ''a'', ev_type = ''up'', ev_t = 70\<rparr>] = Inr [40, 50] \<and>
   (ev_type \<lparr>ev_key = ''a'', ev_type = ''down'', ev_t = 20\<rparr> = ''down'' \<and>
    (\<exists>pd'. match_step (triple \<lparr>ev_key = ''a'', ev_type = ''down'', ev_t = 20\<rparr>)
                       ([''a'' \<mapsto> [10]], []) = Inr (pd', [])
         \<and> queues_of pd' ''a'' = [10, 20])) \<and>
   (ev_type \<lparr>ev_key = ''a'', ev_type = ''up'', ev_t = 50\<rparr> = ''up'' \<and>
    queues_of [''a'' \<mapsto> [10, 20]] ''a'' = [10, 20] \<and>
    (\<exists>pd'. match_step (triple \<lparr>ev_key = ''a'', ev_type = ''up'', ev_t = 50\<rparr>)
                       ([''a'' \<mapsto> [10, 20]], []) = Inr (pd', [40])
         \<and> queues_of pd' ''a'' = [20])) \<and>
   (ev_type \<lparr>ev_key = ''a'', ev_type = ''up'', ev_t = 3\<rparr> = ''up'' \<and>
    queues_of Map.empty ''a'' = [] \<and>
    match_step (triple \<lparr>ev_key = ''a'', ev_type = ''up'', ev_t = 3\<rparr>) (Map.empty, [])
      = Inr (Map.empty, []))"
proof -
  have q0: "queues_of Map.empty ''a'' = []" by (simp add: queues_of_def)
  have q1: "queues_of [''a'' \<mapsto> [10]] ''a'' = [10]" by (simp add: queues_of_def)
  have q2: "queues_of [''a'' \<mapsto> [10, 20]] ''a'' = [10, 20]" by (simp add: queues_of_def)
  have whole_and_empty:
    "dwell_times_of [\<lparr>ev_key = ''a'', ev_type = ''up'', ev_t = 3\<rparr>,
                     \<lparr>ev_key = ''a'', ev_type = ''down'', ev_t = 10\<rparr>,
                     \<lparr>ev_key = ''a'', ev_type = ''down'', ev_t = 20\<rparr>,
                     \<lparr>ev_key = ''b'', ev_type = ''up'', ev_t = 25\<rparr>,
                     \<lparr>ev_key = ''a'', ev_type = ''up'', ev_t = 50\<rparr>,
                     \<lparr>ev_key = ''a'', ev_type = ''up'', ev_t = 70\<rparr>] = Inr [40, 50] \<and>
     match_step (triple \<lparr>ev_key = ''a'', ev_type = ''up'', ev_t = 3\<rparr>) (Map.empty, [])
       = Inr (Map.empty, [])"
    using C4_dwell_fifo_matching
      [of "[\<lparr>ev_key = ''a'', ev_type = ''up'', ev_t = 3\<rparr>,
            \<lparr>ev_key = ''a'', ev_type = ''down'', ev_t = 10\<rparr>,
            \<lparr>ev_key = ''a'', ev_type = ''down'', ev_t = 20\<rparr>,
            \<lparr>ev_key = ''b'', ev_type = ''up'', ev_t = 25\<rparr>,
            \<lparr>ev_key = ''a'', ev_type = ''up'', ev_t = 50\<rparr>,
            \<lparr>ev_key = ''a'', ev_type = ''up'', ev_t = 70\<rparr>]"
          "\<lparr>ev_key = ''a'', ev_type = ''up'', ev_t = 3\<rparr>" Map.empty "[]"]
    by (simp add: spec_dwell_samples_def q0)
  have press:
    "\<exists>pd'. match_step (triple \<lparr>ev_key = ''a'', ev_type = ''down'', ev_t = 20\<rparr>)
                       ([''a'' \<mapsto> [10]], []) = Inr (pd', [])
         \<and> queues_of pd' ''a'' = [10, 20]"
    using C4_dwell_fifo_matching
      [of "[]" "\<lparr>ev_key = ''a'', ev_type = ''down'', ev_t = 20\<rparr>" "[''a'' \<mapsto> [10]]" "[]"]
    by (auto simp: q1)
  have release:
    "\<exists>pd'. match_step (triple \<lparr>ev_key = ''a'', ev_type = ''up'', ev_t = 50\<rparr>)
                       ([''a'' \<mapsto> [10, 20]], []) = Inr (pd', [40])
         \<and> queues_of pd' ''a'' = [20]"
    using C4_dwell_fifo_matching
      [of "[]" "\<lparr>ev_key = ''a'', ev_type = ''up'', ev_t = 50\<rparr>" "[''a'' \<mapsto> [10, 20]]"
          "[]" 10 "[20]"]
    by (auto simp: q2)
  show ?thesis using whole_and_empty press release q0 q2 by simp
qed

text \<open>
  Claim C5. The flight samples are the positive differences of neighbouring press
  timestamps, taken over the timestamps of all presses sorted ascending, whatever the keys.
  Two presses at 0 and 50 give the sample 50 (for any two keys and any release times); two
  presses at the same time give no sample.
\<close>

theorem C5_flight_samples:
  "flight_times_of events = spec_flight_samples events \<and>
   50 \<in> set (flight_times_of [\<lparr>ev_key = k1, ev_type = ''down'', ev_t = 0\<rparr>,
                               \<lparr>ev_key = k2, ev_type = ''down'', ev_t = 50\<rparr>,
                               \<lparr>ev_key = k1, ev_type = ''up'', ev_t = r1\<rparr>,
                               \<lparr>ev_key = k2, ev_type = ''up'', ev_t = r2\<rparr>]) \<and>
   flight_times_of [\<lparr>ev_key = k1, ev_type = ''down'', ev_t = t\<rparr>,
                    \<lparr>ev_key = k2, ev_type = ''down'', ev_t = t\<rparr>] = []"
  by (simp add: flight_times_of_spec spec_flight_samples_def)

text \<open>An instance of C5: presses at 50, 0, 50 and 130 on three keys, unsorted in the input;
  the tie at 50 gives no sample.\<close>

theorem C5_flight_samples_witness:
  "flight_times_of [\<lparr>ev_key = ''b'', ev_type = ''down'', ev_t = 50\<rparr>,
                    \<lparr>ev_key = ''a'', ev_type = ''down'', ev_t = 0\<rparr>,
                    \<lparr>ev_key = ''a'', ev_type = ''up'', ev_t = 80\<rparr>,
                    \<lparr>ev_key = ''c'', ev_type = ''down'', ev_t = 50\<rparr>,
                    \<lparr>ev_key = ''b'', ev_type = ''up'', ev_t = 120\<rparr>,
                    \<lparr>ev_key = ''a'', ev_type = ''down'', ev_t = 130\<rparr>] = [50, 80]"
  using C5_flight_samples
    [of "[\<lparr>ev_key = ''b'', ev_type = ''down'', ev_t = 50\<rparr>,
          \<lparr>ev_key = ''a'', ev_type = ''down'', ev_t = 0\<rparr>,
          \<lparr>ev_key = ''a'', ev_type = ''up'', ev_t = 80\<rparr>,
          \<lparr>ev_key = ''c'', ev_type = ''down'', ev_t = 50\<rparr>,
          \<lparr>ev_key = ''b'', ev_type = ''up'', ev_t = 120\<rparr>,
          \<lparr>ev_key = ''a'', ev_type = ''down'', ev_t = 130\<rparr>]"]
  by (simp add: spec_flight_samples_def)







subsection \<open>The validation of the typed text\<close>

lemma spec_matched_empty_prompt: "spec_matched typed [] = 0"
  by (cases typed) simp_all

lemma count_matches_spec:
  "count_matches typed p m i = m + spec_matched typed (drop i p)"
proof (induction typed arbitrary: m i)
  case Nil
  show ?case by simp
next
  case (Cons c cs)
  show ?case
  proof (cases "i < length p")
    case True
    then have d: "drop i p = p ! i # drop (Suc i) p" by (simp add: Cons_nth_drop_Suc)
    show ?thesis using True Cons.IH by (simp add: d)
  next
    case False
    then show ?thesis using Cons.IH by (simp add: spec_matched_empty_prompt)
  qed
qed

lemma validate_typed_text_iff:
  "validate_typed_text typed prompt sim \<longleftrightarrow>
     (py_lower (py_strip typed) = py_lower (py_strip prompt) \<or>
      (py_lower (py_strip prompt) \<noteq> [] \<and>
       sim \<le> real (spec_matched (py_lower (py_strip typed)) (py_lower (py_strip prompt)))
               / real (length (py_lower (py_strip prompt)))))"
  by (simp add: validate_typed_text_def Let_def count_matches_spec)

text \<open>
  Claim C2. With the default threshold, \<^verbatim>\<open>validate_typed_text\<close> accepts exactly when the
  stripped and lower-cased texts are equal, or the prompt (so normalised) is not empty and the
  number of its characters matched in order by one scan of the typed text, divided by its
  length, is at least 0.8. For an empty normalised prompt there is no quotient, and the code
  accepts only the equal (empty) typed text. The two examples of the specification are
  accepted and rejected.
\<close>

theorem C2_validate_typed_text:
  "(validate_typed_text typed prompt default_min_similarity \<longleftrightarrow>
      (py_lower (py_strip typed) = py_lower (py_strip prompt) \<or>
       (py_lower (py_strip prompt) \<noteq> [] \<and>
        8 / 10 \<le> real (spec_matched (py_lower (py_strip typed)) (py_lower (py_strip prompt)))
                  / real (length (py_lower (py_strip prompt)))))) \<and>
   validate_typed_text ''The Quick Brown Fox'' ''the quick brown fox'' default_min_similarity \<and>
   \<not> validate_typed_text ''xyz'' ''the quick brown fox jumps over the lazy dog''
       default_min_similarity"
proof (intro conjI)
  show "validate_typed_text typed prompt default_min_similarity \<longleftrightarrow>
      (py_lower (py_strip typed) = py_lower (py_strip prompt) \<or>
       (py_lower (py_strip prompt) \<noteq> [] \<and>
        8 / 10 \<le> real (spec_matched (py_lower (py_strip typed)) (py_lower (py_strip prompt)))
                  / real (length (py_lower (py_strip prompt)))))"
    using validate_typed_text_iff [of typed prompt default_min_similarity]
    by (simp only: default_min_similarity_def)
  show "validate_typed_text ''The Quick Brown Fox'' ''the quick brown fox''
          default_min_similarity"
    by (simp add: validate_typed_text_iff py_lower_def py_strip_def py_isspace_def
                  py_lower_char_def)
  show "\<not> validate_typed_text ''xyz'' ''the quick brown fox jumps over the lazy dog''
            default_min_similarity"
    by (simp add: validate_typed_text_iff py_lower_def py_strip_def py_isspace_def
                  py_lower_char_def default_min_similarity_def)
qed

text \<open>A witness for C2: a typed text that lacks the last word of the prompt, 39 of whose 43
  characters are matched, is accepted; one that stops after the fourth word, with 25 matched,
  is rejected.\<close>

theorem C2_validate_typed_text_witness:
  "validate_typed_text '' The quick brown fox jumps over the lazy''
     ''the quick brown fox jumps over the lazy dog'' default_min_similarity \<and>
   \<not> validate_typed_text ''the quick brown fox jumps''
       ''the quick brown fox jumps over the lazy dog'' default_min_similarity"
  using C2_validate_typed_text
          [of "'' The quick brown fox jumps over the lazy''"
              "''the quick brown fox jumps over the lazy dog''"]
        C2_validate_typed_text
          [of "''the quick brown fox jumps''"
              "''the quick brown fox jumps over the lazy dog''"]
  by (simp add: py_lower_def py_strip_def py_isspace_def py_lower_char_def)

subsection \<open>Counting sessions per user\<close>
















subsection \<open>train\_model: the checks, the split and the report\<close>


lemma labels_set: "set (map get_user sessions) = get_user ` set sessions"
  by simp












subsection \<open>predict\_user and the guarded actions of the application\<close>

lemma py_max_eq:
  assumes "probs \<noteq> []"
  shows "py_max probs = Inr (Max (set probs))"
proof (cases probs)
  case Nil
  then show ?thesis using assms by simp
next
  case (Cons a rest)
  then show ?thesis using Max.set_eq_fold [of a rest] by (simp add: py_max_def)
qed

lemma dict_set_new: "k \<notin> set (map fst d) \<Longrightarrow> dict_set d k v = d @ [(k, v)]"
  by (induction d k v rule: dict_set.induct) auto

lemma enumerate_Cons: "enumerate i (p # ps) = (i, p) # enumerate (Suc i) ps"
  by simp

lemma prob_dict_loop_distinct:
  assumes "distinct cn"
  shows "i + length ps \<le> length cn \<Longrightarrow> map fst d = take i cn \<Longrightarrow>
         prob_dict_loop cn (enumerate i ps) d = Inr (d @ zip (drop i cn) ps)"
proof (induction ps arbitrary: i d)
  case Nil
  show ?case by simp
next
  case (Cons p ps)
  have i: "i < length cn" using Cons.prems(1) by simp
  have "distinct (take i cn @ [cn ! i])"
    using assms i by (metis distinct_take take_Suc_conv_app_nth)
  then have "cn ! i \<notin> set (take i cn)" by simp
  then have new: "dict_set d (cn ! i) p = d @ [(cn ! i, p)]"
    using Cons.prems(2) by (simp add: dict_set_new)
  have keys: "map fst (d @ [(cn ! i, p)]) = take (Suc i) cn"
    using Cons.prems(2) i by (simp add: take_Suc_conv_app_nth)
  have len: "Suc i + length ps \<le> length cn" using Cons.prems(1) by simp
  have dr: "drop i cn = cn ! i # drop (Suc i) cn" using i by (simp add: Cons_nth_drop_Suc)
  have "prob_dict_loop cn (enumerate i (p # ps)) d
          = prob_dict_loop cn (enumerate (Suc i) ps) (d @ [(cn ! i, p)])"
    using i new by simp
  also have "\<dots> = Inr ((d @ [(cn ! i, p)]) @ zip (drop (Suc i) cn) ps)"
    using Cons.IH [OF len keys] .
  also have "\<dots> = Inr (d @ zip (drop i cn) (p # ps))" by (simp add: dr)
  finally show ?case .
qed

lemma prob_dict_distinct:
  "distinct cn \<Longrightarrow> length ps \<le> length cn \<Longrightarrow> prob_dict cn ps = Inr (zip cn ps)"
  using prob_dict_loop_distinct [of cn 0 ps "[]"] by (simp add: prob_dict_def)

lemma predict_user_missing: "fs model_path = None \<Longrightarrow> predict_user fs events model_path = Inr ModelNotFound"
  by (simp add: predict_user_def)

lemma predict_user_present:
  "fs model_path = Some f \<Longrightarrow> predict_user fs events model_path \<noteq> Inr ModelNotFound"
  by (auto simp: predict_user_def Let_def split: sum.splits)

lemma predict_user_model:
  assumes "fs model_path = Some (ModelJoblib model)"
    and "extract_features events = Inr features"
    and "probs = clf_predict_proba model (feature_vector features)"
    and "distinct (clf_classes model)" "length probs = length (clf_classes model)" "probs \<noteq> []"
  shows "predict_user fs events model_path
           = Inr (Predicted \<lparr>predicted_user = clf_predict model (feature_vector features),
                             confidence = Max (set probs),
                             probabilities = zip (clf_classes model) probs\<rparr>)"
proof -
  have m: "py_max probs = Inr (Max (set probs))" using assms(6) by (rule py_max_eq)
  have d: "prob_dict (clf_classes model) probs = Inr (zip (clf_classes model) probs)"
    using assms(4,5) by (simp add: prob_dict_distinct)
  show ?thesis
    using assms(1,2) m d
    by (simp add: predict_user_def load_model_def Let_def assms(3) [symmetric])
qed

lemma predict_user_ignores_feature_order:
  "model_path \<noteq> feature_order_path \<Longrightarrow>
   predict_user (fs(feature_order_path := x)) events model_path
     = predict_user fs events model_path"
  by (simp add: predict_user_def)


text \<open>
  Claim C9, as amended. \<^verbatim>\<open>predict_user\<close> returns the failure \<open>ModelNotFound\<close> exactly when
  there is no file at the model path. When the file holds a fitted classifier (distinct class
  names, one probability per class), it loads that file and nothing else, feeds the
  classifier the six features of the events in the order that \<^verbatim>\<open>prepare_features\<close> uses for
  a training row, and returns the predicted label, the largest probability as confidence and
  the probability of every class of the classifier. The recorded feature order is not read:
  whatever is stored at its path, or nothing, the result is the same.
\<close>

theorem C9_prediction:
  "(predict_user fs events model_path = Inr ModelNotFound \<longleftrightarrow> fs model_path = None) \<and>
   (fs model_path = Some (ModelJoblib model) \<and>
    extract_features events = Inr features \<and>
    probs = clf_predict_proba model (feature_vector features) \<and>
    distinct (clf_classes model) \<and> length probs = length (clf_classes model) \<and> probs \<noteq> [] \<longrightarrow>
      predict_user fs events model_path
        = Inr (Predicted \<lparr>predicted_user = clf_predict model (feature_vector features),
                          confidence = Max (set probs),
                          probabilities = zip (clf_classes model) probs\<rparr>) \<and>
      map fst (zip (clf_classes model) probs) = clf_classes model \<and>
      prepare_features
          [\<lparr>s_user = label, s_events = Some events, s_typed_text = txt, s_created_at = ts\<rparr>]
        = Inr ([feature_vector features],
               [get_user \<lparr>s_user = label, s_events = Some events, s_typed_text = txt,
                          s_created_at = ts\<rparr>])) \<and>
   (model_path \<noteq> feature_order_path \<longrightarrow>
      predict_user (fs(feature_order_path := recorded)) events model_path
        = predict_user fs events model_path)"
proof (intro conjI impI)
  show "predict_user fs events model_path = Inr ModelNotFound \<longleftrightarrow> fs model_path = None"
    using predict_user_missing [of fs model_path events]
          predict_user_present [of fs model_path _ events]
    by (cases "fs model_path") auto
next
  assume h: "fs model_path = Some (ModelJoblib model) \<and>
    extract_features events = Inr features \<and>
    probs = clf_predict_proba model (feature_vector features) \<and>
    distinct (clf_classes model) \<and> length probs = length (clf_classes model) \<and> probs \<noteq> []"
  then show "predict_user fs events model_path
        = Inr (Predicted \<lparr>predicted_user = clf_predict model (feature_vector features),
                          confidence = Max (set probs),
                          probabilities = zip (clf_classes model) probs\<rparr>)"
    using predict_user_model [of fs model_path model events features probs] by blast
  show "map fst (zip (clf_classes model) probs) = clf_classes model"
    using h map_fst_zip [of "clf_classes model" probs] by auto
  show "prepare_features
          [\<lparr>s_user = label, s_events = Some events, s_typed_text = txt, s_created_at = ts\<rparr>]
        = Inr ([feature_vector features],
               [get_user \<lparr>s_user = label, s_events = Some events, s_typed_text = txt,
                          s_created_at = ts\<rparr>])"
    using h by (simp add: get_events_def)
next
  assume "model_path \<noteq> feature_order_path"
  then show "predict_user (fs(feature_order_path := recorded)) events model_path
        = predict_user fs events model_path"
    by (rule predict_user_ignores_feature_order)
qed

text \<open>A witness for C9: a model and its feature order on disk, and an empty disk.\<close>

theorem C9_prediction_witness:
  "predict_user [default_model_path \<mapsto> ModelJoblib example_classifier,
                 feature_order_path \<mapsto> FeatureOrderJoblib feature_order]
       example_events default_model_path
     = Inr (Predicted \<lparr>predicted_user = ''A'', confidence = 3 / 4,
                       probabilities = [(''A'', 3 / 4), (''B'', 1 / 4)]\<rparr>) \<and>
   predict_user Map.empty example_events default_model_path = Inr ModelNotFound \<and>
   default_model_path \<noteq> feature_order_path"
proof -
  let ?fs = "[default_model_path \<mapsto> ModelJoblib example_classifier,
              feature_order_path \<mapsto> FeatureOrderJoblib feature_order]"
  let ?f = "\<lparr>dwell_mean = 100, dwell_std = 0, dwell_median = 100,
             flight_mean = 150, flight_std = 0, flight_median = 150\<rparr>"
  have ne: "default_model_path \<noteq> feature_order_path"
    by (simp add: default_model_path_def feature_order_path_def)
  have f: "?fs default_model_path = Some (ModelJoblib example_classifier)"
    using ne by simp
  have e: "extract_features example_events = Inr ?f"
    by (simp add: example_events_def extract_features_def dwell_times_of_spec
        spec_dwell_samples_def flight_times_of_spec spec_flight_samples_def calc_stats_def
        statistics_mean_def statistics_stdev_def statistics_median_def)
  have p: "[3 / 4, 1 / 4] = clf_predict_proba example_classifier (feature_vector ?f)"
    by (simp add: example_classifier_def)
  have c: "distinct (clf_classes example_classifier) \<and>
           length [3 / 4, 1 / 4 :: real] = length (clf_classes example_classifier) \<and>
           [3 / 4, 1 / 4 :: real] \<noteq> []"
    by (simp add: example_classifier_def)
  from C9_prediction [of ?fs example_events default_model_path example_classifier ?f
                         "[3 / 4, 1 / 4]"] f e p c
  have "predict_user ?fs example_events default_model_path
        = Inr (Predicted \<lparr>predicted_user = clf_predict example_classifier (feature_vector ?f),
                          confidence = Max (set [3 / 4, 1 / 4]),
                          probabilities = zip (clf_classes example_classifier) [3 / 4, 1 / 4]\<rparr>)"
    by blast
  then have 1: "predict_user ?fs example_events default_model_path
     = Inr (Predicted \<lparr>predicted_user = ''A'', confidence = 3 / 4,
                       probabilities = [(''A'', 3 / 4), (''B'', 1 / 4)]\<rparr>)"
    by (simp add: example_classifier_def)
  have 2: "predict_user Map.empty example_events default_model_path = Inr ModelNotFound"
    using C9_prediction [of Map.empty example_events default_model_path] by simp
  show ?thesis using 1 2 ne by blast
qed

text \<open>
  Claim C9 as stated fails where it has the predictor load the recorded feature order
  together with the model: with no feature order on disk the prediction succeeds, and with
  the six names recorded in reverse order it is the same prediction.
\<close>

theorem C9_feature_order_counterexample:
  "[default_model_path \<mapsto> ModelJoblib example_classifier] feature_order_path = None \<and>
   predict_user [default_model_path \<mapsto> ModelJoblib example_classifier]
       example_events default_model_path
     = Inr (Predicted \<lparr>predicted_user = ''A'', confidence = 3 / 4,
                       probabilities = [(''A'', 3 / 4), (''B'', 1 / 4)]\<rparr>) \<and>
   predict_user [default_model_path \<mapsto> ModelJoblib example_classifier,
                 feature_order_path \<mapsto> FeatureOrderJoblib (rev feature_order)]
       example_events default_model_path
     = Inr (Predicted \<lparr>predicted_user = ''A'', confidence = 3 / 4,
                       probabilities = [(''A'', 3 / 4), (''B'', 1 / 4)]\<rparr>)"
  by (simp add: default_model_path_def feature_order_path_def predict_user_def load_model_def
      example_classifier_def py_max_def prob_dict_def
      example_events_def extract_features_def dwell_times_of_spec
      spec_dwell_samples_def flight_times_of_spec spec_flight_samples_def calc_stats_def
      statistics_mean_def statistics_stdev_def statistics_median_def)

text \<open>
  Claim C10, as amended. With fewer than four captured events, \<^verbatim>\<open>save_session\<close> and
  \<^verbatim>\<open>predict_action\<close> both end with a warning box and change nothing: no session is written
  and no prediction is made. The warning is \<open>TooFewEvents\<close> exactly when the typed text is not
  empty after stripping and passes \<^verbatim>\<open>validate_typed_text\<close> against the prompt, since the
  checks for an empty text and for the validation come first.
\<close>

theorem C10_too_few_events:
  "(length (current_events st) < 4 \<longrightarrow>
      (\<exists>w. save_session st now = (Warning w, st)) \<and>
      (save_session st now = (Warning TooFewEvents, st) \<longleftrightarrow>
         py_strip (text_input st) \<noteq> [] \<and>
         validate_typed_text (py_strip (text_input st)) PROMPT_TEXT default_min_similarity)) \<and>
   (length (predict_events st) < 4 \<longrightarrow>
      (\<exists>w. predict_action st = Warning w) \<and>
      (predict_action st = Warning TooFewEvents \<longleftrightarrow>
         py_strip (predict_text_input st) \<noteq> [] \<and>
         validate_typed_text (py_strip (predict_text_input st)) PROMPT_TEXT
           default_min_similarity))"
  by (auto simp: save_session_def predict_action_def Let_def)

text \<open>A witness for C10: the prompt typed exactly (the text widget adds a newline), with
  three captured events.\<close>

theorem C10_too_few_events_witness:
  "length (take 3 example_events) < 4 \<and>
   save_session (example_state (PROMPT_TEXT @ [CHR 0x0A]) (take 3 example_events))
       ''2024-01-01T00:00:00''
     = (Warning TooFewEvents, example_state (PROMPT_TEXT @ [CHR 0x0A]) (take 3 example_events)) \<and>
   predict_action (example_state (PROMPT_TEXT @ [CHR 0x0A]) (take 3 example_events))
     = Warning TooFewEvents"
proof -
  let ?st = "example_state (PROMPT_TEXT @ [CHR 0x0A]) (take 3 example_events)"
  have s: "py_strip (PROMPT_TEXT @ [CHR 0x0A]) = PROMPT_TEXT"
    by (simp add: PROMPT_TEXT_def py_strip_def py_isspace_def)
  have ne: "PROMPT_TEXT \<noteq> []" by (simp add: PROMPT_TEXT_def)
  have v: "validate_typed_text PROMPT_TEXT PROMPT_TEXT default_min_similarity"
    by (simp add: validate_typed_text_def)
  have l: "length (current_events ?st) < 4" "length (predict_events ?st) < 4"
    by (simp_all add: example_state_def example_events_def)
  have t: "text_input ?st = PROMPT_TEXT @ [CHR 0x0A]"
          "predict_text_input ?st = PROMPT_TEXT @ [CHR 0x0A]"
    by (simp_all add: example_state_def)
  from C10_too_few_events [of ?st "''2024-01-01T00:00:00''"] l s ne v t
  show ?thesis by (simp add: example_events_def)
qed

text \<open>
  Claim C10 as stated fails: with no event captured and an empty text both actions stop with
  the warning for an empty text, with the text xyz with the warning of the validation, and
  \<^verbatim>\<open>predict_user\<close> itself, which has no check on the number of events, predicts from an empty
  event list.
\<close>

theorem C10_other_failure_counterexample:
  "length ([] :: event list) < 4 \<and>
   fst (save_session (example_state [] []) ''2024-01-01T00:00:00'') = Warning EmptyText \<and>
   predict_action (example_state [] []) = Warning EmptyText \<and>
   fst (save_session (example_state ''xyz'' []) ''2024-01-01T00:00:00'')
     = Warning ValidationFailed \<and>
   predict_action (example_state ''xyz'' []) = Warning ValidationFailed \<and>
   Warning EmptyText \<noteq> Warning TooFewEvents \<and>
   Warning ValidationFailed \<noteq> Warning TooFewEvents \<and>
   predict_user [default_model_path \<mapsto> ModelJoblib example_classifier] [] default_model_path
     = Inr (Predicted \<lparr>predicted_user = ''A'', confidence = 3 / 4,
                       probabilities = [(''A'', 3 / 4), (''B'', 1 / 4)]\<rparr>)"
  by (simp add: save_session_def predict_action_def example_state_def py_strip_def
      py_isspace_def validate_typed_text_iff py_lower_def py_lower_char_def PROMPT_TEXT_def
      default_min_similarity_def predict_user_def load_model_def extract_features_def
      zero_features_def feature_vector_def example_classifier_def py_max_def prob_dict_def
      Let_def)

subsection \<open>extract\_features on floats: where it fails\<close>






































end
